theory Spec2Isabelle
  imports Main "HOL-Library.Word"
begin

unbundle bit_operations_syntax

section \<open>Data\<close>

text \<open>
  The crypto core of the chat client works on three kinds of data: octet arrays
  (\<open>Uint8Array\<close>, \<open>ArrayBuffer\<close>), JavaScript strings (sequences of 16-bit code
  units) and opaque \<open>CryptoKey\<close> handles.  A \<open>Uint8Array\<close> is a list of bytes, a string
  a list of code units.
\<close>

type_synonym byte = "8 word"
type_synonym bytes = "byte list"
type_synonym jschar = "16 word"
type_synonym jsstring = "jschar list"

text \<open>String literals of the source, written as HOL strings, as code units.\<close>

definition js :: "string \<Rightarrow> jsstring" where
  "js s = map (\<lambda>c. of_nat (of_char c)) s"

section \<open>constants.ts\<close>

definition PBKDF2_ITERATIONS :: nat where
  "PBKDF2_ITERATIONS = 310000"

definition SALT_LENGTH :: nat where
  "SALT_LENGTH = 32"

definition IV_LENGTH :: nat where
  "IV_LENGTH = 12"

definition KEY_SIZE :: nat where
  "KEY_SIZE = 32"

section \<open>utils.ts\<close>

subsection \<open>arrayBufferToHex\<close>

text \<open>
  \<open>b.toString(16)\<close> for a byte \<open>b\<close>: one or two lowercase hexadecimal digits, no
  leading zero.
\<close>

definition hexDigit :: "nat \<Rightarrow> jschar" where
  "hexDigit d = (if d < 10 then of_nat (48 + d) else of_nat (97 + (d - 10)))"

definition toString16 :: "byte \<Rightarrow> jsstring" where
  "toString16 b =
     (if unat b < 16 then [hexDigit (unat b)]
      else [hexDigit (unat b div 16), hexDigit (unat b mod 16)])"

text \<open>\<open>s.padStart(n, c)\<close> with a one-character filler.\<close>

definition padStart :: "nat \<Rightarrow> jschar \<Rightarrow> jsstring \<Rightarrow> jsstring" where
  "padStart n c s = replicate (n - length s) c @ s"

definition arrayBufferToHex :: "bytes \<Rightarrow> jsstring" where
  "arrayBufferToHex buffer = concat (map (\<lambda>b. padStart 2 0x30 (toString16 b)) buffer)"

subsection \<open>generateFingerprint\<close>

text \<open>
  \<open>toUpperCase\<close> on the code units \<open>a\<close> to \<open>z\<close>; the hexadecimal text it is applied to
  holds no other letters.
\<close>

definition upperChar :: "jschar \<Rightarrow> jschar" where
  "upperChar c = (if 0x61 \<le> c \<and> c \<le> 0x7A then c - 0x20 else c)"

definition toUpperCase :: "jsstring \<Rightarrow> jsstring" where
  "toUpperCase s = map upperChar s"

text \<open>\<open>s.substring(i, j)\<close> and \<open>s.slice(i, j)\<close> for \<open>0 \<le> i \<le> j\<close>.\<close>

definition slice :: "nat \<Rightarrow> nat \<Rightarrow> 'a list \<Rightarrow> 'a list" where
  "slice i j s = take (j - i) (drop i s)"

definition generateFingerprint :: "bytes \<Rightarrow> jsstring" where
  "generateFingerprint publicKey =
     (let hex = arrayBufferToHex publicKey;
          shortened = toUpperCase (slice 0 16 hex)
      in slice 0 4 shortened @ js ''-'' @ slice 4 8 shortened @ js ''-''
         @ slice 8 12 shortened @ js ''-'' @ slice 12 16 shortened)"

text \<open>The format \<open>[0-9A-F]{4}-[0-9A-F]{4}-[0-9A-F]{4}-[0-9A-F]{4}\<close>.\<close>

definition isUpperHex :: "jschar \<Rightarrow> bool" where
  "isUpperHex c = ((0x30 \<le> c \<and> c \<le> 0x39) \<or> (0x41 \<le> c \<and> c \<le> 0x46))"

definition isHexGroup :: "jsstring \<Rightarrow> bool" where
  "isHexGroup g = (length g = 4 \<and> list_all isUpperHex g)"

definition isFingerprintFormat :: "jsstring \<Rightarrow> bool" where
  "isFingerprintFormat s =
     (length s = 19 \<and>
      isHexGroup (slice 0 4 s) \<and> s ! 4 = 0x2D \<and>
      isHexGroup (slice 5 9 s) \<and> s ! 9 = 0x2D \<and>
      isHexGroup (slice 10 14 s) \<and> s ! 14 = 0x2D \<and>
      isHexGroup (slice 15 19 s))"

text \<open>
  The fingerprint as the specification describes it: each of the first eight bytes written
  as two uppercase hexadecimal digits, high nibble first, in groups of two bytes.
\<close>

definition upperHexDigit :: "nat \<Rightarrow> jschar" where
  "upperHexDigit d = (if d < 10 then of_nat (48 + d) else of_nat (55 + d))"

definition upperHexByte :: "byte \<Rightarrow> jsstring" where
  "upperHexByte b = [upperHexDigit (unat b div 16), upperHexDigit (unat b mod 16)]"

definition specifiedFingerprint :: "bytes \<Rightarrow> jsstring" where
  "specifiedFingerprint pk =
     upperHexByte (pk ! 0) @ upperHexByte (pk ! 1) @ js ''-''
     @ upperHexByte (pk ! 2) @ upperHexByte (pk ! 3) @ js ''-''
     @ upperHexByte (pk ! 4) @ upperHexByte (pk ! 5) @ js ''-''
     @ upperHexByte (pk ! 6) @ upperHexByte (pk ! 7)"

subsection \<open>secureCompare\<close>

text \<open>
  The loop \<open>for (i = 0; i < a.length; i++) result |= a[i] ^ b[i]\<close>, entered only with
  \<open>a.length = b.length\<close>; \<open>result\<close> is a 32-bit integer, as the bitwise operators of
  JavaScript make it.
\<close>

function secureCompareLoop :: "bytes \<Rightarrow> bytes \<Rightarrow> nat \<Rightarrow> 32 word \<Rightarrow> 32 word" where
  "secureCompareLoop a b i result =
     (if i < length a
      then secureCompareLoop a b (i + 1) (result OR (ucast (a ! i) XOR ucast (b ! i)))
      else result)"
  by pat_completeness auto
termination
  by (relation "measure (\<lambda>(a, b, i, result). length a - i)") auto

declare secureCompareLoop.simps [simp del]

definition secureCompare :: "bytes \<Rightarrow> bytes \<Rightarrow> bool" where
  "secureCompare a b =
     (if length a \<noteq> length b then False
      else secureCompareLoop a b 0 0 = 0)"


section \<open>The platform\<close>

text \<open>
  The source calls the browser for everything it does not compute itself: the clock, the
  random source, \<open>btoa\<close>/\<open>atob\<close>, \<open>JSON\<close>, the text codec and \<open>crypto.subtle\<close>.
  A rejected promise or a thrown exception is a value \<open>Inl e\<close>, \<open>e\<close> the name of the
  exception.
\<close>

datatype error =
    OperationError | DataError | InvalidAccessError | InvalidCharacterError
  | SyntaxError | TypeError | NotSupportedError

text \<open>\<open>await p\<close> followed by the rest of an \<open>async\<close> function: a rejection ends it.\<close>

definition await :: "error + 'a \<Rightarrow> ('a \<Rightarrow> error + 'b) \<Rightarrow> error + 'b" where
  "await p rest = (case p of Inl e \<Rightarrow> Inl e | Inr x \<Rightarrow> rest x)"

subsection \<open>Clock and random source\<close>

text \<open>
  \<open>Date.now()\<close> and \<open>crypto.getRandomValues\<close> read the world: each call takes the next
  reading of the clock, or the next bytes of the random source, and moves on.  The source
  draws 12 and 32 bytes at a time; \<open>getRandomValues\<close> refuses a request of more than 65536
  bytes, a length that \<open>generateRandomBytes\<close> is never called with and that is not
  modelled.
\<close>

record world =
  clock :: "nat \<Rightarrow> nat"
  clockReads :: nat
  entropy :: "nat \<Rightarrow> byte"
  entropyDrawn :: nat

definition Date_now :: "world \<Rightarrow> nat \<times> world" where
  "Date_now w = (clock w (clockReads w), w\<lparr>clockReads := clockReads w + 1\<rparr>)"

definition generateRandomBytes :: "nat \<Rightarrow> world \<Rightarrow> bytes \<times> world" where
  "generateRandomBytes len w =
     (map (entropy w) [entropyDrawn w ..< entropyDrawn w + len],
      w\<lparr>entropyDrawn := entropyDrawn w + len\<rparr>)"

subsection \<open>Text codec\<close>

text \<open>
  \<open>new TextEncoder().encode(s)\<close> and \<open>new TextDecoder().decode(b)\<close>, after the Encoding
  Standard.  Encoding reads the code units as scalar values (a surrogate pair is one code
  point, an unpaired surrogate becomes U+FFFD) and writes UTF-8.  Decoding with the default
  options (\<open>fatal: false\<close>, \<open>ignoreBOM: false\<close>) replaces each ill-formed sequence by
  U+FFFD and leaves a leading U+FEFF out of the result.
\<close>

definition isLeadSurrogate :: "jschar \<Rightarrow> bool" where
  "isLeadSurrogate c = (0xD800 \<le> c \<and> c \<le> 0xDBFF)"

definition isTrailSurrogate :: "jschar \<Rightarrow> bool" where
  "isTrailSurrogate c = (0xDC00 \<le> c \<and> c \<le> 0xDFFF)"

definition scalarOfUnit :: "jschar \<Rightarrow> nat" where
  "scalarOfUnit c = (if isLeadSurrogate c \<or> isTrailSurrogate c then 0xFFFD else unat c)"

fun toScalarValues :: "jsstring \<Rightarrow> nat list" where
  "toScalarValues [] = []"
| "toScalarValues [c] = [scalarOfUnit c]"
| "toScalarValues (c # d # rest) =
     (if isLeadSurrogate c \<and> isTrailSurrogate d
      then (0x10000 + (unat c - 0xD800) * 0x400 + (unat d - 0xDC00)) # toScalarValues rest
      else scalarOfUnit c # toScalarValues (d # rest))"

definition utf8EncodeScalar :: "nat \<Rightarrow> bytes" where
  "utf8EncodeScalar cp =
     (if cp < 0x80 then [of_nat cp]
      else if cp < 0x800 then [of_nat (0xC0 + cp div 0x40), of_nat (0x80 + cp mod 0x40)]
      else if cp < 0x10000 then
        [of_nat (0xE0 + cp div 0x1000), of_nat (0x80 + cp div 0x40 mod 0x40),
         of_nat (0x80 + cp mod 0x40)]
      else
        [of_nat (0xF0 + cp div 0x40000), of_nat (0x80 + cp div 0x1000 mod 0x40),
         of_nat (0x80 + cp div 0x40 mod 0x40), of_nat (0x80 + cp mod 0x40)])"

definition TextEncoder_encode :: "jsstring \<Rightarrow> bytes" where
  "TextEncoder_encode s = concat (map utf8EncodeScalar (toScalarValues s))"

text \<open>
  The UTF-8 decoder of the standard: the code point under construction, the bytes seen and
  needed, and the bounds on the next continuation byte.  A byte that cannot continue a
  sequence ends it with U+FFFD and is read again as a first byte.
\<close>

function utf8Decode :: "nat \<Rightarrow> nat \<Rightarrow> nat \<Rightarrow> nat \<Rightarrow> nat \<Rightarrow> bytes \<Rightarrow> nat list" where
  "utf8Decode cp seen needed lower upper [] = (if needed \<noteq> 0 then [0xFFFD] else [])"
| "utf8Decode cp seen needed lower upper (b # bs) =
     (let x = unat b in
      if needed = 0 then
        (if x \<le> 0x7F then x # utf8Decode 0 0 0 0x80 0xBF bs
         else if 0xC2 \<le> x \<and> x \<le> 0xDF then utf8Decode (x mod 0x20) 0 1 0x80 0xBF bs
         else if 0xE0 \<le> x \<and> x \<le> 0xEF then
           utf8Decode (x mod 0x10) 0 2 (if x = 0xE0 then 0xA0 else 0x80)
             (if x = 0xED then 0x9F else 0xBF) bs
         else if 0xF0 \<le> x \<and> x \<le> 0xF4 then
           utf8Decode (x mod 0x08) 0 3 (if x = 0xF0 then 0x90 else 0x80)
             (if x = 0xF4 then 0x8F else 0xBF) bs
         else 0xFFFD # utf8Decode 0 0 0 0x80 0xBF bs)
      else if x < lower \<or> upper < x then 0xFFFD # utf8Decode 0 0 0 0x80 0xBF (b # bs)
      else if seen + 1 \<noteq> needed then
        utf8Decode (cp * 0x40 + x mod 0x40) (seen + 1) needed 0x80 0xBF bs
      else (cp * 0x40 + x mod 0x40) # utf8Decode 0 0 0 0x80 0xBF bs)"
  by pat_completeness auto
termination
  by (relation "measure (\<lambda>(cp, seen, needed, lower, upper, bs).
        2 * length bs + (if needed = 0 then 0 else 1))") auto

definition stripBOM :: "nat list \<Rightarrow> nat list" where
  "stripBOM cps = (case cps of [] \<Rightarrow> [] | cp # rest \<Rightarrow> if cp = 0xFEFF then rest else cps)"

definition unitsOfScalar :: "nat \<Rightarrow> jsstring" where
  "unitsOfScalar cp =
     (if cp < 0x10000 then [of_nat cp]
      else [of_nat (0xD800 + (cp - 0x10000) div 0x400),
            of_nat (0xDC00 + (cp - 0x10000) mod 0x400)])"

definition TextDecoder_decode :: "bytes \<Rightarrow> jsstring" where
  "TextDecoder_decode b =
     concat (map unitsOfScalar (stripBOM (utf8Decode 0 0 0 0x80 0xBF b)))"

subsection \<open>\<open>crypto.subtle\<close>, \<open>btoa\<close>/\<open>atob\<close> and \<open>JSON\<close>\<close>

text \<open>
  The arguments the source passes to \<open>crypto.subtle\<close>, as it writes them.
\<close>

datatype hashName = SHA_256

datatype keyUsage = Usage_deriveKey | Usage_deriveBits | Usage_encrypt | Usage_decrypt

datatype importAlgorithm = Import_HKDF | Import_PBKDF2 | Import_ECDH_P256

datatype deriveAlgorithm =
    HKDF hashName bytes bytes
  | PBKDF2 bytes nat hashName

datatype derivedKeyAlgorithm = AES_GCM nat

record AesGcmParams =
  gcm_iv :: bytes
  gcm_additionalData :: "bytes option"
  gcm_tagLength :: "nat option"

text \<open>
  The operations themselves are parameters of the model: \<open>'k\<close> is the type of
  \<open>CryptoKey\<close> handles, \<open>'j\<close> the type of parsed JSON values.
\<close>

record ('k, 'j) platform =
  btoa :: "jsstring \<Rightarrow> error + jsstring"
  atob :: "jsstring \<Rightarrow> error + jsstring"
  JSON_stringify :: "'j \<Rightarrow> jsstring"
  JSON_parse :: "jsstring \<Rightarrow> error + 'j"
  importKey_raw :: "bytes \<Rightarrow> importAlgorithm \<Rightarrow> bool \<Rightarrow> keyUsage list \<Rightarrow> error + 'k"
  importKey_jwk :: "'j \<Rightarrow> importAlgorithm \<Rightarrow> bool \<Rightarrow> keyUsage list \<Rightarrow> error + 'k"
  exportKey_raw :: "'k \<Rightarrow> error + bytes"
  exportKey_jwk :: "'k \<Rightarrow> error + 'j"
  deriveBits_ECDH :: "'k \<Rightarrow> 'k \<Rightarrow> nat \<Rightarrow> error + bytes"
  deriveKey :: "deriveAlgorithm \<Rightarrow> 'k \<Rightarrow> derivedKeyAlgorithm \<Rightarrow> bool \<Rightarrow> keyUsage list
                \<Rightarrow> error + 'k"
  encrypt :: "AesGcmParams \<Rightarrow> 'k \<Rightarrow> bytes \<Rightarrow> error + bytes"
  decrypt :: "AesGcmParams \<Rightarrow> 'k \<Rightarrow> bytes \<Rightarrow> error + bytes"


section \<open>utils.ts, continued\<close>

text \<open>
  \<open>arrayBufferToBase64\<close> appends \<open>String.fromCharCode(bytes[i])\<close> for every byte and
  passes the string to \<open>btoa\<close>; \<open>base64ToArrayBuffer\<close> stores \<open>binary.charCodeAt(i)\<close>
  into a \<open>Uint8Array\<close>, which keeps the low eight bits.
\<close>

definition arrayBufferToBase64 :: "('k, 'j) platform \<Rightarrow> bytes \<Rightarrow> error + jsstring" where
  "arrayBufferToBase64 P buffer = btoa P (map ucast buffer)"

definition base64ToArrayBuffer :: "('k, 'j) platform \<Rightarrow> jsstring \<Rightarrow> error + bytes" where
  "base64ToArrayBuffer P base64 = await (atob P base64) (\<lambda>binary. Inr (map ucast binary))"

text \<open>\<open>result.set(arr, offset)\<close> on a typed array long enough to hold \<open>arr\<close> there.\<close>

definition setAt :: "bytes \<Rightarrow> bytes \<Rightarrow> nat \<Rightarrow> bytes" where
  "setAt result arr offset = take offset result @ arr @ drop (offset + length arr) result"

definition concatUint8Arrays :: "bytes list \<Rightarrow> bytes" where
  "concatUint8Arrays arrays =
     (let totalLength = fold (\<lambda>arr sum. sum + length arr) arrays 0
      in fst (fold (\<lambda>arr (result, offset). (setAt result arr offset, offset + length arr))
                arrays (replicate totalLength 0, 0)))"

section \<open>aes-gcm.ts\<close>

record EncryptedMessage =
  ciphertext :: jsstring
  timestamp :: nat

record DecryptedMessage =
  plaintext :: jsstring
  decrypted_timestamp :: nat

definition encryptMessage ::
  "('k, 'j) platform \<Rightarrow> 'k \<Rightarrow> jsstring \<Rightarrow> bytes option \<Rightarrow> world
   \<Rightarrow> (error + EncryptedMessage) \<times> world" where
  "encryptMessage P sessionKey text additionalData w =
     (let (iv, w1) = generateRandomBytes IV_LENGTH w;
          plaintextBytes = TextEncoder_encode text;
          encryptParams = \<lparr>gcm_iv = iv, gcm_additionalData = additionalData,
                           gcm_tagLength = Some 128\<rparr>
      in case encrypt P encryptParams sessionKey plaintextBytes of
           Inl e \<Rightarrow> (Inl e, w1)
         | Inr ciphertextBuffer \<Rightarrow>
             (let combined = concatUint8Arrays [iv, ciphertextBuffer]
              in case arrayBufferToBase64 P combined of
                   Inl e \<Rightarrow> (Inl e, w1)
                 | Inr encoded \<Rightarrow>
                     (let (now, w2) = Date_now w1
                      in (Inr \<lparr>ciphertext = encoded, timestamp = now\<rparr>, w2))))"

definition decryptMessage ::
  "('k, 'j) platform \<Rightarrow> 'k \<Rightarrow> EncryptedMessage \<Rightarrow> bytes option \<Rightarrow> error + DecryptedMessage"
  where
  "decryptMessage P sessionKey encryptedMessage additionalData =
     await (base64ToArrayBuffer P (ciphertext encryptedMessage)) (\<lambda>combined.
       let iv = slice 0 IV_LENGTH combined;
           ciphertextBytes = drop IV_LENGTH combined;
           decryptParams = \<lparr>gcm_iv = iv, gcm_additionalData = additionalData,
                            gcm_tagLength = Some 128\<rparr>
       in await (decrypt P decryptParams sessionKey ciphertextBytes) (\<lambda>plaintextBuffer.
            Inr \<lparr>plaintext = TextDecoder_decode plaintextBuffer,
                 decrypted_timestamp = timestamp encryptedMessage\<rparr>))"

text \<open>
  \<open>createAAD\<close> renders the timestamp, an integer number of milliseconds, in decimal
  inside the template string.  All digits are printed for integers below \<open>10\<^sup>2\<^sup>1\<close>, which
  every reading of \<open>Date.now()\<close> is; the exponent form of larger numbers is not modelled.
\<close>

function numberToString :: "nat \<Rightarrow> jsstring" where
  "numberToString n =
     (if n < 10 then [of_nat (48 + n)]
      else numberToString (n div 10) @ [of_nat (48 + n mod 10)])"
  by pat_completeness auto
termination
  by (relation "measure id") auto

declare numberToString.simps [simp del]

definition createAAD :: "jsstring \<Rightarrow> jsstring \<Rightarrow> nat \<Rightarrow> bytes" where
  "createAAD senderId recipientId ts =
     TextEncoder_encode (senderId @ js '':'' @ recipientId @ js '':'' @ numberToString ts)"

section \<open>ecdh.ts\<close>

record 'k KeyPair =
  publicKey :: 'k
  privateKey :: 'k
  publicKeyRaw :: bytes
  fingerprint :: jsstring

record 'k DirectionalKeys =
  dk_sendKey :: 'k
  dk_receiveKey :: 'k

definition HKDF_INFO :: bytes where
  "HKDF_INFO = TextEncoder_encode (js ''chit-chat-e2ee-v1'')"

definition deriveSharedSecret :: "('k, 'j) platform \<Rightarrow> 'k \<Rightarrow> 'k \<Rightarrow> error + bytes" where
  "deriveSharedSecret P privKey pubKey = deriveBits_ECDH P pubKey privKey 256"

text \<open>
  A typed array stands for its bytes.  \<open>deriveSessionKey\<close> passes \<open>salt.buffer\<close> and
  \<open>info.buffer\<close>, the whole buffer under the array; the arrays the source calls it with
  (\<open>HKDF_INFO\<close> and the results of \<open>TextEncoder.encode\<close>) own their buffer, so these are
  the same bytes.  An array that is a view on part of a larger buffer is not modelled.
\<close>

definition deriveSessionKey ::
  "('k, 'j) platform \<Rightarrow> bytes \<Rightarrow> bytes option \<Rightarrow> bytes \<Rightarrow> error + 'k" where
  "deriveSessionKey P sharedSecret salt info =
     await (importKey_raw P sharedSecret Import_HKDF False [Usage_deriveKey]) (\<lambda>hkdfKey.
       let hkdfSalt = (case salt of Some s \<Rightarrow> s | None \<Rightarrow> replicate KEY_SIZE 0)
       in deriveKey P (HKDF SHA_256 hkdfSalt info) hkdfKey (AES_GCM 256) True
            [Usage_encrypt, Usage_decrypt])"

definition performKeyExchange ::
  "('k, 'j) platform \<Rightarrow> 'k KeyPair \<Rightarrow> 'k \<Rightarrow> bytes option \<Rightarrow> error + 'k" where
  "performKeyExchange P myKeyPair theirPublicKey salt =
     await (deriveSharedSecret P (privateKey myKeyPair) theirPublicKey) (\<lambda>sharedSecret.
       deriveSessionKey P sharedSecret salt HKDF_INFO)"

text \<open>\<open>a < b\<close> on strings compares code units, position by position.\<close>

fun jsLess :: "jsstring \<Rightarrow> jsstring \<Rightarrow> bool" where
  "jsLess [] [] = False"
| "jsLess [] (y # ys) = True"
| "jsLess (x # xs) [] = False"
| "jsLess (x # xs) (y # ys) = (x < y \<or> (x = y \<and> jsLess xs ys))"

definition deriveBidirectionalKeys ::
  "('k, 'j) platform \<Rightarrow> 'k KeyPair \<Rightarrow> 'k \<Rightarrow> jsstring \<Rightarrow> jsstring \<Rightarrow> error + 'k DirectionalKeys"
  where
  "deriveBidirectionalKeys P myKeyPair theirPublicKey myFingerprint theirFingerprint =
     await (deriveSharedSecret P (privateKey myKeyPair) theirPublicKey) (\<lambda>sharedSecret.
       let iAmLower = jsLess myFingerprint theirFingerprint;
           info1 = TextEncoder_encode (js ''chit-chat-session-key-1'');
           info2 = TextEncoder_encode (js ''chit-chat-session-key-2'')
       in await (deriveSessionKey P sharedSecret None info1) (\<lambda>key1.
          await (deriveSessionKey P sharedSecret None info2) (\<lambda>key2.
            Inr \<lparr>dk_sendKey = (if iAmLower then key1 else key2),
                 dk_receiveKey = (if iAmLower then key2 else key1)\<rparr>)))"


section \<open>keys.ts\<close>

record ExportedKeyPair =
  exported_publicKey :: jsstring
  exported_privateKey :: jsstring
  exported_fingerprint :: jsstring

record EncryptedKeyBackup =
  backup_encryptedPrivateKey :: jsstring
  backup_salt :: jsstring
  backup_iv :: jsstring
  backup_publicKey :: jsstring
  backup_fingerprint :: jsstring

definition exportKeyPair :: "('k, 'j) platform \<Rightarrow> 'k KeyPair \<Rightarrow> error + ExportedKeyPair" where
  "exportKeyPair P keyPair =
     await (exportKey_raw P (publicKey keyPair)) (\<lambda>rawPublic.
     await (exportKey_jwk P (privateKey keyPair)) (\<lambda>privateKeyJwk.
     await (arrayBufferToBase64 P rawPublic) (\<lambda>encodedPublic.
       Inr \<lparr>exported_publicKey = encodedPublic,
            exported_privateKey = JSON_stringify P privateKeyJwk,
            exported_fingerprint = fingerprint keyPair\<rparr>)))"

definition importKeyPair :: "('k, 'j) platform \<Rightarrow> ExportedKeyPair \<Rightarrow> error + 'k KeyPair" where
  "importKeyPair P exported =
     await (base64ToArrayBuffer P (exported_publicKey exported)) (\<lambda>rawPublic.
     await (JSON_parse P (exported_privateKey exported)) (\<lambda>privateKeyJwk.
     await (importKey_raw P rawPublic Import_ECDH_P256 True []) (\<lambda>pub.
     await (importKey_jwk P privateKeyJwk Import_ECDH_P256 True
              [Usage_deriveKey, Usage_deriveBits]) (\<lambda>priv.
       Inr \<lparr>publicKey = pub, privateKey = priv, publicKeyRaw = rawPublic,
            fingerprint = exported_fingerprint exported\<rparr>))))"

definition importPublicKey :: "('k, 'j) platform \<Rightarrow> jsstring \<Rightarrow> error + 'k" where
  "importPublicKey P base64PublicKey =
     await (base64ToArrayBuffer P base64PublicKey) (\<lambda>rawPublic.
       importKey_raw P rawPublic Import_ECDH_P256 True [])"

definition derivePasswordKey :: "('k, 'j) platform \<Rightarrow> jsstring \<Rightarrow> bytes \<Rightarrow> error + 'k" where
  "derivePasswordKey P password salt =
     (let passwordBuffer = TextEncoder_encode password
      in await (importKey_raw P passwordBuffer Import_PBKDF2 False [Usage_deriveKey]) (\<lambda>baseKey.
           deriveKey P (PBKDF2 salt PBKDF2_ITERATIONS SHA_256) baseKey (AES_GCM 256) False
             [Usage_encrypt, Usage_decrypt]))"

definition createKeyBackup ::
  "('k, 'j) platform \<Rightarrow> 'k KeyPair \<Rightarrow> jsstring \<Rightarrow> world \<Rightarrow> (error + EncryptedKeyBackup) \<times> world"
  where
  "createKeyBackup P keyPair password w =
     (let (salt, w1) = generateRandomBytes SALT_LENGTH w;
          (iv, w2) = generateRandomBytes 12 w1
      in (await (derivePasswordKey P password salt) (\<lambda>passwordKey.
          await (exportKey_jwk P (privateKey keyPair)) (\<lambda>privateKeyJwk.
          let privateKeyData = TextEncoder_encode (JSON_stringify P privateKeyJwk)
          in await (encrypt P \<lparr>gcm_iv = iv, gcm_additionalData = None, gcm_tagLength = None\<rparr>
                      passwordKey privateKeyData) (\<lambda>encryptedPrivateKey.
             await (exportKey_raw P (publicKey keyPair)) (\<lambda>rawPublic.
             await (arrayBufferToBase64 P encryptedPrivateKey) (\<lambda>encodedKey.
             await (arrayBufferToBase64 P salt) (\<lambda>encodedSalt.
             await (arrayBufferToBase64 P iv) (\<lambda>encodedIv.
             await (arrayBufferToBase64 P rawPublic) (\<lambda>encodedPublic.
               Inr \<lparr>backup_encryptedPrivateKey = encodedKey,
                    backup_salt = encodedSalt,
                    backup_iv = encodedIv,
                    backup_publicKey = encodedPublic,
                    backup_fingerprint = fingerprint keyPair\<rparr>)))))))), w2))"

definition restoreKeyFromBackup ::
  "('k, 'j) platform \<Rightarrow> EncryptedKeyBackup \<Rightarrow> jsstring \<Rightarrow> error + 'k KeyPair" where
  "restoreKeyFromBackup P backup password =
     await (base64ToArrayBuffer P (backup_salt backup)) (\<lambda>salt.
     await (base64ToArrayBuffer P (backup_iv backup)) (\<lambda>iv.
     await (base64ToArrayBuffer P (backup_encryptedPrivateKey backup)) (\<lambda>encryptedPrivateKey.
     await (derivePasswordKey P password salt) (\<lambda>passwordKey.
     await (decrypt P \<lparr>gcm_iv = iv, gcm_additionalData = None, gcm_tagLength = None\<rparr>
              passwordKey encryptedPrivateKey) (\<lambda>decryptedData.
     await (JSON_parse P (TextDecoder_decode decryptedData)) (\<lambda>privateKeyJwk.
     await (importKey_jwk P privateKeyJwk Import_ECDH_P256 True
              [Usage_deriveKey, Usage_deriveBits]) (\<lambda>priv.
     await (base64ToArrayBuffer P (backup_publicKey backup)) (\<lambda>rawPublic.
     await (importKey_raw P rawPublic Import_ECDH_P256 True []) (\<lambda>pub.
       Inr \<lparr>publicKey = pub, privateKey = priv, publicKeyRaw = rawPublic,
            fingerprint = backup_fingerprint backup\<rparr>)))))))))"

section \<open>index.ts\<close>

record 'k SecureSession =
  sessionId :: jsstring
  sendKey :: 'k
  receiveKey :: 'k
  theirFingerprint :: jsstring
  createdAt :: nat

record SecureMessagePayload =
  payload_sessionId :: jsstring
  senderId :: jsstring
  recipientId :: jsstring
  encrypted :: EncryptedMessage

definition establishSecureSession ::
  "('k, 'j) platform \<Rightarrow> 'k KeyPair \<Rightarrow> jsstring \<Rightarrow> jsstring \<Rightarrow> world
   \<Rightarrow> (error + 'k SecureSession) \<times> world" where
  "establishSecureSession P myKeyPair theirPublicKeyBase64 theirFp w =
     (case importPublicKey P theirPublicKeyBase64 of
        Inl e \<Rightarrow> (Inl e, w)
      | Inr theirPublicKey \<Rightarrow>
          (case deriveBidirectionalKeys P myKeyPair theirPublicKey (fingerprint myKeyPair)
                  theirFp of
             Inl e \<Rightarrow> (Inl e, w)
           | Inr keys \<Rightarrow>
               (let (t1, w1) = Date_now w;
                    sid = fingerprint myKeyPair @ js ''-'' @ theirFp @ js ''-''
                          @ numberToString t1;
                    (t2, w2) = Date_now w1
                in (Inr \<lparr>sessionId = sid, sendKey = dk_sendKey keys,
                         receiveKey = dk_receiveKey keys, theirFingerprint = theirFp,
                         createdAt = t2\<rparr>, w2))))"

definition encryptSessionMessage ::
  "('k, 'j) platform \<Rightarrow> 'k SecureSession \<Rightarrow> jsstring \<Rightarrow> jsstring \<Rightarrow> jsstring \<Rightarrow> world
   \<Rightarrow> (error + SecureMessagePayload) \<times> world" where
  "encryptSessionMessage P session sender recipient message w =
     (let (ts, w1) = Date_now w;
          aad = createAAD sender recipient ts
      in case encryptMessage P (sendKey session) message (Some aad) w1 of
           (Inl e, w2) \<Rightarrow> (Inl e, w2)
         | (Inr enc, w2) \<Rightarrow>
             (Inr \<lparr>payload_sessionId = sessionId session, senderId = sender,
                   recipientId = recipient, encrypted = enc\<rparr>, w2))"

definition decryptSessionMessage ::
  "('k, 'j) platform \<Rightarrow> 'k SecureSession \<Rightarrow> SecureMessagePayload \<Rightarrow> error + DecryptedMessage"
  where
  "decryptSessionMessage P session payload =
     (let aad = createAAD (senderId payload) (recipientId payload)
                  (timestamp (encrypted payload))
      in decryptMessage P (receiveKey session) (encrypted payload) (Some aad))"


section \<open>What is expected of the platform\<close>

text \<open>
  The source relies on the platform functions being what their specifications say.  The
  laws it relies on are stated here as predicates on a platform, to be assumed where a
  property of the source depends on them.
\<close>

text \<open>\<open>atob\<close> undoes \<open>btoa\<close> on every string of code units below 256.\<close>

definition base64_ok :: "('k, 'j) platform \<Rightarrow> bool" where
  "base64_ok P =
     (\<forall>binary. list_all (\<lambda>c. c \<le> 0xFF) binary \<longrightarrow>
        (\<exists>encoded. btoa P binary = Inr encoded \<and> atob P encoded = Inr binary))"

text \<open>
  The associated data AES-GCM authenticates: the \<open>additionalData\<close> member when present,
  the empty octet string otherwise.
\<close>

definition aadBytes :: "bytes option \<Rightarrow> bytes" where
  "aadBytes a = (case a of None \<Rightarrow> [] | Some b \<Rightarrow> b)"

text \<open>
  A key with which AES-GCM works: encryption under any 12-byte nonce succeeds, and
  decryption with the same parameters gives the plaintext back.
\<close>

definition aesGcmKey :: "('k, 'j) platform \<Rightarrow> 'k \<Rightarrow> bool" where
  "aesGcmKey P k =
     (\<forall>p d. length (gcm_iv p) = 12 \<longrightarrow>
        (\<exists>c. encrypt P p k d = Inr c \<and> decrypt P p k c = Inr d))"

text \<open>One bit of an octet string inverted: bit \<open>n mod 8\<close> of byte \<open>n div 8\<close>.\<close>

definition flipBit :: "nat \<Rightarrow> bytes \<Rightarrow> bytes" where
  "flipBit n bs = bs[n div 8 := (bs ! (n div 8)) XOR push_bit (n mod 8) 1]"

text \<open>
  The authentication an AEAD cipher is trusted for, for the ciphertexts made with a key.
  Decryption is refused with \<open>OperationError\<close> when the associated data differ from those
  of the encryption.
\<close>

definition bindsAssociatedData :: "('k, 'j) platform \<Rightarrow> 'k \<Rightarrow> bool" where
  "bindsAssociatedData P k =
     (\<forall>p d c a. encrypt P p k d = Inr c \<longrightarrow>
        aadBytes a \<noteq> aadBytes (gcm_additionalData p) \<longrightarrow>
        decrypt P (p\<lparr>gcm_additionalData := a\<rparr>) k c = Inl OperationError)"

text \<open>
  It is refused in the same way when one bit of the nonce is inverted, and when one bit of
  the ciphertext or of its tag is inverted.
\<close>

definition detectsBitFlips :: "('k, 'j) platform \<Rightarrow> 'k \<Rightarrow> bool" where
  "detectsBitFlips P k =
     (\<forall>p d c. encrypt P p k d = Inr c \<longrightarrow>
        (\<forall>n < 8 * length (gcm_iv p).
             decrypt P (p\<lparr>gcm_iv := flipBit n (gcm_iv p)\<rparr>) k c = Inl OperationError) \<and>
        (\<forall>n < 8 * length c. decrypt P p k (flipBit n c) = Inl OperationError))"

text \<open>A ciphertext made with one key is refused under every other AES-GCM key.\<close>

definition keyBinding :: "('k, 'j) platform \<Rightarrow> bool" where
  "keyBinding P =
     (\<forall>p k k' d c. encrypt P p k d = Inr c \<longrightarrow> aesGcmKey P k' \<longrightarrow> k' \<noteq> k \<longrightarrow>
        decrypt P p k' c = Inl OperationError)"

section \<open>A small platform\<close>

text \<open>
  A platform small enough to compute with, on which the laws above hold.  It stands for
  the browser wherever a statement about every platform is applied to a concrete one.
  Its keys carry their material in the open, its key agreement is Diffie-Hellman modulo
  251, its key derivations append their inputs, its cipher writes key, nonce and associated
  data in front of the data, each byte of the data twice, and its \<open>btoa\<close> is the identity
  on the strings \<open>btoa\<close> accepts.
\<close>

datatype smallKey =
    EcPrivate nat
  | EcPublic nat
  | KeyMaterial importAlgorithm bytes
  | SecretKey bytes

fun selfDelimited :: "bytes \<Rightarrow> bytes" where
  "selfDelimited [] = [0]"
| "selfDelimited (b # bs) = 1 # b # selfDelimited bs"

fun twice :: "bytes \<Rightarrow> bytes" where
  "twice [] = []"
| "twice (b # bs) = b # b # twice bs"

fun untwice :: "bytes \<Rightarrow> bytes option" where
  "untwice [] = Some []"
| "untwice [b] = None"
| "untwice (b # c # bs) =
     (if b = c then (case untwice bs of None \<Rightarrow> None | Some d \<Rightarrow> Some (b # d)) else None)"

definition smallHeader :: "bytes \<Rightarrow> AesGcmParams \<Rightarrow> bytes" where
  "smallHeader k p =
     selfDelimited k @ selfDelimited (gcm_iv p)
     @ selfDelimited (aadBytes (gcm_additionalData p))"

fun smallEncrypt :: "AesGcmParams \<Rightarrow> smallKey \<Rightarrow> bytes \<Rightarrow> error + bytes" where
  "smallEncrypt p (SecretKey k) d = Inr (smallHeader k p @ twice d)"
| "smallEncrypt p _ d = Inl InvalidAccessError"

fun smallDecrypt :: "AesGcmParams \<Rightarrow> smallKey \<Rightarrow> bytes \<Rightarrow> error + bytes" where
  "smallDecrypt p (SecretKey k) c =
     (let h = smallHeader k p
      in if take (length h) c = h
         then (case untwice (drop (length h) c) of
                 None \<Rightarrow> Inl OperationError
               | Some d \<Rightarrow> Inr d)
         else Inl OperationError)"
| "smallDecrypt p _ c = Inl InvalidAccessError"

definition smallBtoa :: "jsstring \<Rightarrow> error + jsstring" where
  "smallBtoa s = (if list_all (\<lambda>c. c \<le> 0xFF) s then Inr s else Inl InvalidCharacterError)"

fun smallImportRaw ::
  "bytes \<Rightarrow> importAlgorithm \<Rightarrow> bool \<Rightarrow> keyUsage list \<Rightarrow> error + smallKey" where
  "smallImportRaw bs Import_ECDH_P256 ext us =
     (case bs of
        [t, x, _, _, _, _, _, _] \<Rightarrow> if t = 4 then Inr (EcPublic (unat x)) else Inl DataError
      | _ \<Rightarrow> Inl DataError)"
| "smallImportRaw bs alg ext us = Inr (KeyMaterial alg bs)"

fun smallExportRaw :: "smallKey \<Rightarrow> error + bytes" where
  "smallExportRaw (EcPublic y) = Inr [4, of_nat y, 0, 0, 0, 0, 0, 0]"
| "smallExportRaw _ = Inl InvalidAccessError"

fun smallExportJwk :: "smallKey \<Rightarrow> error + nat" where
  "smallExportJwk (EcPrivate x) = Inr x"
| "smallExportJwk _ = Inl InvalidAccessError"

definition smallParse :: "jsstring \<Rightarrow> error + nat" where
  "smallParse s =
     (if s \<noteq> [] \<and> list_all (\<lambda>c. 0x30 \<le> c \<and> c \<le> 0x39) s
      then Inr (fold (\<lambda>c n. 10 * n + (unat c - 48)) s 0)
      else Inl SyntaxError)"

fun smallDeriveBits :: "smallKey \<Rightarrow> smallKey \<Rightarrow> nat \<Rightarrow> error + bytes" where
  "smallDeriveBits (EcPublic y) (EcPrivate x) n = Inr [of_nat (y ^ x mod 251)]"
| "smallDeriveBits _ _ n = Inl InvalidAccessError"

fun smallDeriveKey ::
  "deriveAlgorithm \<Rightarrow> smallKey \<Rightarrow> derivedKeyAlgorithm \<Rightarrow> bool \<Rightarrow> keyUsage list
   \<Rightarrow> error + smallKey" where
  "smallDeriveKey (HKDF h salt info) (KeyMaterial Import_HKDF m) alg ext us =
     Inr (SecretKey (m @ salt @ info))"
| "smallDeriveKey (PBKDF2 salt n h) (KeyMaterial Import_PBKDF2 m) alg ext us =
     Inr (SecretKey (m @ salt))"
| "smallDeriveKey _ _ alg ext us = Inl InvalidAccessError"

definition smallPlatform :: "(smallKey, nat) platform" where
  "smallPlatform =
     \<lparr>btoa = smallBtoa,
      atob = smallBtoa,
      JSON_stringify = numberToString,
      JSON_parse = smallParse,
      importKey_raw = smallImportRaw,
      importKey_jwk = (\<lambda>j alg ext us. Inr (EcPrivate j)),
      exportKey_raw = smallExportRaw,
      exportKey_jwk = smallExportJwk,
      deriveBits_ECDH = smallDeriveBits,
      deriveKey = smallDeriveKey,
      encrypt = smallEncrypt,
      decrypt = smallDecrypt\<rparr>"

text \<open>A world whose clock advances by one millisecond at every reading.\<close>

definition tickingWorld :: world where
  "tickingWorld =
     \<lparr>clock = (\<lambda>i. 1700000000000 + i), clockReads = 0,
      entropy = (\<lambda>i. of_nat (7 * i + 3)), entropyDrawn = 0\<rparr>"

text \<open>A world whose clock stands still.\<close>

definition frozenWorld :: world where
  "frozenWorld = tickingWorld\<lparr>clock := (\<lambda>i. 1700000000000)\<rparr>"

text \<open>
  A key pair of the small platform, and an exported record and a backup record of it whose
  fingerprint field is not the fingerprint of the public key they hold.
\<close>

definition smallAlice :: "smallKey KeyPair" where
  "smallAlice =
     \<lparr>publicKey = EcPublic 8, privateKey = EcPrivate 3,
      publicKeyRaw = [4, 8, 0, 0, 0, 0, 0, 0], fingerprint = js ''FFFF-FFFF-FFFF-FFFF''\<rparr>"

definition mismatchedExport :: ExportedKeyPair where
  "mismatchedExport =
     \<lparr>exported_publicKey = [4, 8, 0, 0, 0, 0, 0, 0], exported_privateKey = js ''3'',
      exported_fingerprint = js ''FFFF-FFFF-FFFF-FFFF''\<rparr>"

definition mismatchedBackup :: EncryptedKeyBackup where
  "mismatchedBackup =
     \<lparr>backup_encryptedPrivateKey = [0, 0, 0, 51, 51], backup_salt = [], backup_iv = [],
      backup_publicKey = [4, 8, 0, 0, 0, 0, 0, 0],
      backup_fingerprint = js ''FFFF-FFFF-FFFF-FFFF''\<rparr>"

text \<open>
  A second key pair of the small platform: the private keys 3 and 5 belong to the public
  keys \<open>2 ^ 3 mod 251 = 8\<close> and \<open>2 ^ 5 mod 251 = 32\<close>.
\<close>

definition smallBob :: "smallKey KeyPair" where
  "smallBob =
     \<lparr>publicKey = EcPublic 32, privateKey = EcPrivate 5,
      publicKeyRaw = [4, 32, 0, 0, 0, 0, 0, 0], fingerprint = js ''0420-0000-0000-0000''\<rparr>"

section \<open>The key derivation as the specification words it\<close>

text \<open>
  The specification names the two context labels \<open>session-key-1\<close> and \<open>session-key-2\<close>.
  This is \<open>deriveBidirectionalKeys\<close> with those labels in place of the ones in the source,
  to compare the two.
\<close>

definition claimedBidirectionalKeys ::
  "('k, 'j) platform \<Rightarrow> 'k KeyPair \<Rightarrow> 'k \<Rightarrow> jsstring \<Rightarrow> jsstring \<Rightarrow> error + 'k DirectionalKeys"
  where
  "claimedBidirectionalKeys P myKeyPair theirPublicKey myFp theirFp =
     await (deriveSharedSecret P (privateKey myKeyPair) theirPublicKey) (\<lambda>sharedSecret.
       let iAmLower = jsLess myFp theirFp;
           info1 = TextEncoder_encode (js ''session-key-1'');
           info2 = TextEncoder_encode (js ''session-key-2'')
       in await (deriveSessionKey P sharedSecret None info1) (\<lambda>key1.
          await (deriveSessionKey P sharedSecret None info2) (\<lambda>key2.
            Inr \<lparr>dk_sendKey = (if iAmLower then key1 else key2),
                 dk_receiveKey = (if iAmLower then key2 else key1)\<rparr>)))"

section \<open>Well-formed strings\<close>

text \<open>
  A string is well formed when every surrogate in it belongs to a pair, a lead surrogate
  followed by a trail surrogate: these are the strings that are text, and that UTF-8 can
  carry.  A scalar value is a code point other than a surrogate.
\<close>

fun wellFormed :: "jsstring \<Rightarrow> bool" where
  "wellFormed [] = True"
| "wellFormed [c] = (\<not> isLeadSurrogate c \<and> \<not> isTrailSurrogate c)"
| "wellFormed (c # d # rest) =
     (if isLeadSurrogate c \<and> isTrailSurrogate d then wellFormed rest
      else \<not> isLeadSurrogate c \<and> \<not> isTrailSurrogate c \<and> wellFormed (d # rest))"

definition isScalar :: "nat \<Rightarrow> bool" where
  "isScalar cp = (cp < 0x110000 \<and> \<not> (0xD800 \<le> cp \<and> cp \<le> 0xDFFF))"

section \<open>Encoding utilities: proofs\<close>

subsection \<open>secureCompare\<close>

lemma ucast_byte_inj:
  fixes x y :: byte
  assumes "(ucast x :: 32 word) = ucast y"
  shows "x = y"
proof -
  have "uint (ucast x :: 32 word) = uint x" "uint (ucast y :: 32 word) = uint y"
    by (simp_all add: uint_up_ucast is_up)
  with assms have "uint x = uint y" by simp
  then show ?thesis by (rule word_uint_eqI)
qed

lemma ucast_xor_zero:
  fixes x y :: byte
  shows "(ucast x XOR ucast y = (0::32 word)) = (x = y)"
proof
  assume "ucast x XOR ucast y = (0::32 word)"
  then have "(ucast x :: 32 word) = ucast y"
    by (metis bit.xor_left_self word_log_esimps(5))
  then show "x = y" by (rule ucast_byte_inj)
next
  assume "x = y"
  then show "ucast x XOR ucast y = (0::32 word)" by simp
qed

lemma secureCompareLoop_zero:
  "secureCompareLoop a b i r = 0 \<longleftrightarrow>
     r = 0 \<and> (\<forall>j. i \<le> j \<and> j < length a \<longrightarrow> a ! j = b ! j)"
proof (induction a b i r rule: secureCompareLoop.induct)
  case (1 a b i result)
  show ?case
  proof (cases "i < length a")
    case True
    have step: "secureCompareLoop a b i result =
        secureCompareLoop a b (i + 1) (result OR (ucast (a ! i) XOR ucast (b ! i)))"
      using True by (subst secureCompareLoop.simps) simp
    have split: "(\<forall>j. i \<le> j \<and> j < length a \<longrightarrow> a ! j = b ! j) \<longleftrightarrow>
        a ! i = b ! i \<and> (\<forall>j. i + 1 \<le> j \<and> j < length a \<longrightarrow> a ! j = b ! j)"
      using True by (metis Suc_eq_plus1 Suc_leI le_eq_less_or_eq order_refl Suc_le_lessD)
    show ?thesis
      unfolding step "1.IH"[OF True] split
      by (auto simp: or_eq_0_iff ucast_xor_zero)
  next
    case False
    then show ?thesis by (subst secureCompareLoop.simps) auto
  qed
qed

lemma secureCompareLoop_fold:
  "secureCompareLoop a b i r =
     fold (\<lambda>j acc. acc OR (ucast (a ! j) XOR ucast (b ! j))) [i ..< length a] r"
proof (induction a b i r rule: secureCompareLoop.induct)
  case (1 a b i result)
  show ?case
  proof (cases "i < length a")
    case True
    then show ?thesis
      using "1.IH"[OF True]
      by (subst secureCompareLoop.simps) (simp add: upt_rec [of i "length a"])
  next
    case False
    then show ?thesis by (subst secureCompareLoop.simps) simp
  qed
qed

text \<open>
  C9.  \<open>secureCompare a b\<close> is true exactly when the two arrays have the same length and
  the same byte at every index.  A difference in length is the only early exit: for arrays
  of equal length the answer is whether the accumulator, into which the XOR of every pair
  of bytes from index 0 to the last has been OR-ed, is zero.
\<close>

theorem secureCompare_correct:
  "(secureCompare a b \<longleftrightarrow> length a = length b \<and> (\<forall>i < length a. a ! i = b ! i))
   \<and> (length a \<noteq> length b \<longrightarrow> \<not> secureCompare a b)
   \<and> (length a = length b \<longrightarrow>
        secureCompare a b =
          (fold (\<lambda>i acc. acc OR (ucast (a ! i) XOR ucast (b ! i))) [0 ..< length a] (0::32 word)
           = 0))"
proof -
  have eq: "secureCompare a b \<longleftrightarrow> length a = length b \<and> (\<forall>i < length a. a ! i = b ! i)"
    by (auto simp: secureCompare_def secureCompareLoop_zero)
  have acc: "secureCompare a b =
      (fold (\<lambda>i acc. acc OR (ucast (a ! i) XOR ucast (b ! i))) [0 ..< length a] (0::32 word) = 0)"
    if "length a = length b"
    using that by (simp add: secureCompare_def secureCompareLoop_fold)
  from eq acc show ?thesis by blast
qed

theorem secureCompare_correct_witness:
  "secureCompare [1, 2, 3] [1, 2, 3] \<and> \<not> secureCompare [1, 2, 3] [1, 2, 4]
   \<and> \<not> secureCompare [1, 2] [1, 2, 3]"
  using secureCompare_correct [of "[1, 2, 3]" "[1, 2, 3]"]
    secureCompare_correct [of "[1, 2, 3]" "[1, 2, 4]"]
    secureCompare_correct [of "[1, 2]" "[1, 2, 3]"]
  by (simp add: nth_Cons' All_less_Suc numeral_3_eq_3)

subsection \<open>generateFingerprint\<close>

lemma hexDigit_upper:
  assumes "d < 16"
  shows "isUpperHex (upperChar (hexDigit d))"
proof -
  from assms have "d = 0 \<or> d = 1 \<or> d = 2 \<or> d = 3 \<or> d = 4 \<or> d = 5 \<or> d = 6 \<or> d = 7 \<or> d = 8
      \<or> d = 9 \<or> d = 10 \<or> d = 11 \<or> d = 12 \<or> d = 13 \<or> d = 14 \<or> d = 15"
    by arith
  then show ?thesis
    by (auto simp: hexDigit_def upperChar_def isUpperHex_def)
qed

lemma hex_of_byte:
  "padStart 2 0x30 (toString16 b) = [hexDigit (unat b div 16), hexDigit (unat b mod 16)]"
  by (auto simp: padStart_def toString16_def hexDigit_def)

lemma arrayBufferToHex_Nil: "arrayBufferToHex [] = []"
  by (simp add: arrayBufferToHex_def)

lemma arrayBufferToHex_Cons:
  "arrayBufferToHex (b # bs) =
     hexDigit (unat b div 16) # hexDigit (unat b mod 16) # arrayBufferToHex bs"
  by (simp add: arrayBufferToHex_def hex_of_byte)

lemma take_arrayBufferToHex:
  "take (2 * n) (arrayBufferToHex bs) = arrayBufferToHex (take n bs)"
proof (induction bs arbitrary: n)
  case Nil
  then show ?case by (simp add: arrayBufferToHex_Nil)
next
  case (Cons b bs)
  then show ?case
    by (cases n) (simp_all add: arrayBufferToHex_Cons arrayBufferToHex_Nil)
qed

lemma generateFingerprint_prefix: "generateFingerprint pk = generateFingerprint (take 8 pk)"
proof -
  have "take 16 (arrayBufferToHex pk) = take 16 (arrayBufferToHex (take 8 pk))"
    using take_arrayBufferToHex [of 8 pk] take_arrayBufferToHex [of 8 "take 8 pk"] by simp
  then show ?thesis
    by (simp add: generateFingerprint_def slice_def Let_def)
qed

lemma eight_elements:
  assumes "length (xs :: 'a list) = 8"
  obtains a b c d e f g h where "xs = [a, b, c, d, e, f, g, h]"
proof -
  from assms obtain a b c d e f g h where "xs = [a, b, c, d, e, f, g, h]"
    by (auto simp: length_Suc_conv numeral_eq_Suc)
  then show ?thesis by (rule that)
qed

lemma byte_nibbles:
  fixes b :: byte
  shows "unat b div 16 < 16" and "unat b mod 16 < 16"
proof -
  have "unat b < 256" using unsigned_less [of b, where 'a = nat] by simp
  then show "unat b div 16 < 16" by simp
  show "unat b mod 16 < 16" by simp
qed

lemma fingerprint_format_8:
  "isFingerprintFormat (generateFingerprint [a, b, c, d, e, f, g, h])"
  by (simp add: generateFingerprint_def isFingerprintFormat_def isHexGroup_def slice_def
      arrayBufferToHex_Cons arrayBufferToHex_Nil toUpperCase_def js_def Let_def
      hexDigit_upper byte_nibbles)

lemma sixteen_cases:
  assumes "(d::nat) < 16"
  shows "d = 0 \<or> d = 1 \<or> d = 2 \<or> d = 3 \<or> d = 4 \<or> d = 5 \<or> d = 6 \<or> d = 7 \<or> d = 8
      \<or> d = 9 \<or> d = 10 \<or> d = 11 \<or> d = 12 \<or> d = 13 \<or> d = 14 \<or> d = 15"
  using assms by arith

lemma upperChar_hexDigit:
  assumes "d < 16"
  shows "upperChar (hexDigit d) = upperHexDigit d"
  using sixteen_cases [OF assms]
  by (auto simp: hexDigit_def upperChar_def upperHexDigit_def)

lemma upperHexDigit_inj:
  assumes "d < 16" and "e < 16" and "upperHexDigit d = upperHexDigit e"
  shows "d = e"
proof -
  have small: "unat (of_nat n :: jschar) = n" if "n < 65536" for n
    using that by (simp add: unat_of_nat)
  have unat_digit: "unat (upperHexDigit k) = (if k < 10 then 48 + k else 55 + k)" if "k < 16" for k
  proof -
    have "upperHexDigit k = of_nat (if k < 10 then 48 + k else 55 + k)"
      by (simp add: upperHexDigit_def)
    moreover have "(if k < 10 then 48 + k else 55 + k) < 65536" using that by simp
    ultimately show ?thesis by (simp only: small)
  qed
  from assms have "(if d < 10 then 48 + d else 55 + d) = (if e < 10 then 48 + e else 55 + e)"
    using unat_digit [of d] unat_digit [of e] by simp
  then show ?thesis by (simp split: if_splits)
qed

lemma upperHexByte_inj:
  assumes "upperHexByte b = upperHexByte c"
  shows "b = c"
proof -
  from assms have "unat b div 16 = unat c div 16" and "unat b mod 16 = unat c mod 16"
    using upperHexDigit_inj byte_nibbles by (simp_all add: upperHexByte_def)
  then have "unat b = unat c"
    by (metis div_mult_mod_eq)
  then show ?thesis by (simp add: word_unat_eq_iff)
qed

lemma fingerprint_value_8:
  "generateFingerprint [a, b, c, d, e, f, g, h] = specifiedFingerprint [a, b, c, d, e, f, g, h]"
  by (simp add: generateFingerprint_def specifiedFingerprint_def upperHexByte_def slice_def
      arrayBufferToHex_Cons arrayBufferToHex_Nil toUpperCase_def js_def Let_def
      upperChar_hexDigit byte_nibbles)

lemma specifiedFingerprint_prefix:
  assumes "8 \<le> length pk"
  shows "specifiedFingerprint (take 8 pk) = specifiedFingerprint pk"
  by (simp add: specifiedFingerprint_def)

lemma generateFingerprint_value:
  assumes "8 \<le> length pk"
  shows "generateFingerprint pk = specifiedFingerprint pk"
proof -
  have "length (take 8 pk) = 8" using assms by simp
  then obtain a b c d e f g h where eight: "take 8 pk = [a, b, c, d, e, f, g, h]"
    by (rule eight_elements)
  have "generateFingerprint pk = generateFingerprint (take 8 pk)"
    by (rule generateFingerprint_prefix)
  also have "\<dots> = specifiedFingerprint (take 8 pk)"
    unfolding eight by (rule fingerprint_value_8)
  also have "\<dots> = specifiedFingerprint pk"
    using assms by (rule specifiedFingerprint_prefix)
  finally show ?thesis .
qed

lemma specifiedFingerprint_inj:
  assumes "8 \<le> length pk" and "8 \<le> length pk'"
    and "specifiedFingerprint pk' = specifiedFingerprint pk"
  shows "take 8 pk' = take 8 pk"
proof -
  from assms(3) have pairs:
    "upperHexByte (pk' ! 0) = upperHexByte (pk ! 0)" "upperHexByte (pk' ! 1) = upperHexByte (pk ! 1)"
    "upperHexByte (pk' ! 2) = upperHexByte (pk ! 2)" "upperHexByte (pk' ! 3) = upperHexByte (pk ! 3)"
    "upperHexByte (pk' ! 4) = upperHexByte (pk ! 4)" "upperHexByte (pk' ! 5) = upperHexByte (pk ! 5)"
    "upperHexByte (pk' ! 6) = upperHexByte (pk ! 6)" "upperHexByte (pk' ! 7) = upperHexByte (pk ! 7)"
    by (simp_all add: specifiedFingerprint_def upperHexByte_def js_def)
  have "pk' ! i = pk ! i" if "i < 8" for i
  proof -
    from that have "i = 0 \<or> i = 1 \<or> i = 2 \<or> i = 3 \<or> i = 4 \<or> i = 5 \<or> i = 6 \<or> i = 7"
      by arith
    with pairs show ?thesis
      using upperHexByte_inj by blast
  qed
  with assms(1,2) show ?thesis
    by (intro nth_equalityI) simp_all
qed

text \<open>
  C7.  A raw public key is a fixed-length encoding of at least eight bytes (65 bytes for
  the curve the source uses).  For every such byte string the fingerprint has the format
  \<open>XXXX-XXXX-XXXX-XXXX\<close> with uppercase hexadecimal digits, and it is derived from the first
  eight bytes: it is their sixteen uppercase hexadecimal digits, two per byte and in order,
  with a hyphen after every second byte.  So it is a function of the first eight bytes
  alone, two keys that agree there have the same fingerprint, and two keys that differ
  there have different fingerprints.
\<close>

theorem generateFingerprint_format:
  assumes "8 \<le> length pk"
  shows "isFingerprintFormat (generateFingerprint pk)
         \<and> generateFingerprint pk = specifiedFingerprint pk
         \<and> generateFingerprint pk = generateFingerprint (take 8 pk)
         \<and> (\<forall>pk'. take 8 pk' = take 8 pk \<longrightarrow> generateFingerprint pk' = generateFingerprint pk)
         \<and> (\<forall>pk'. 8 \<le> length pk' \<and> generateFingerprint pk' = generateFingerprint pk
               \<longrightarrow> take 8 pk' = take 8 pk)"
proof -
  have "length (take 8 pk) = 8" using assms by simp
  then obtain a b c d e f g h where "take 8 pk = [a, b, c, d, e, f, g, h]"
    by (rule eight_elements)
  then have "isFingerprintFormat (generateFingerprint pk)"
    using generateFingerprint_prefix [of pk] fingerprint_format_8 by simp
  moreover have "generateFingerprint pk = specifiedFingerprint pk"
    using assms by (rule generateFingerprint_value)
  moreover have "generateFingerprint pk' = generateFingerprint pk"
    if "take 8 pk' = take 8 pk" for pk'
    using that generateFingerprint_prefix [of pk] generateFingerprint_prefix [of pk'] by simp
  moreover have "take 8 pk' = take 8 pk"
    if "8 \<le> length pk' \<and> generateFingerprint pk' = generateFingerprint pk" for pk'
  proof -
    from that have "specifiedFingerprint pk' = specifiedFingerprint pk"
      using generateFingerprint_value [of pk'] generateFingerprint_value [OF assms] by simp
    with assms that show ?thesis
      by (intro specifiedFingerprint_inj) simp_all
  qed
  ultimately show ?thesis
    using generateFingerprint_prefix [of pk] by blast
qed

theorem generateFingerprint_format_witness:
  "(8::nat) \<le> length [0x04, 0xAB, 0x01, 0xFF, 0, 1, 2, 3, 4, 5 :: byte]
   \<and> isFingerprintFormat (generateFingerprint [0x04, 0xAB, 0x01, 0xFF, 0, 1, 2, 3, 4, 5])
   \<and> generateFingerprint [0x04, 0xAB, 0x01, 0xFF, 0, 1, 2, 3, 4, 5] = js ''04AB-01FF-0001-0203''
   \<and> generateFingerprint [0x04, 0xAB, 0x01, 0xFF, 0, 1, 2, 3, 9, 9, 9]
       = generateFingerprint [0x04, 0xAB, 0x01, 0xFF, 0, 1, 2, 3, 4, 5]
   \<and> generateFingerprint [0x04, 0xAB, 0x01, 0xFF, 0, 1, 2, 7, 4, 5]
       \<noteq> generateFingerprint [0x04, 0xAB, 0x01, 0xFF, 0, 1, 2, 3, 4, 5]"
proof -
  have len: "(8::nat) \<le> length [0x04, 0xAB, 0x01, 0xFF, 0, 1, 2, 3, 4, 5 :: byte]" by simp
  have pre: "take 8 [0x04, 0xAB, 0x01, 0xFF, 0, 1, 2, 3, 9, 9, 9 :: byte]
      = take 8 [0x04, 0xAB, 0x01, 0xFF, 0, 1, 2, 3, 4, 5]"
    by simp
  have len': "(8::nat) \<le> length [0x04, 0xAB, 0x01, 0xFF, 0, 1, 2, 7, 4, 5 :: byte]" by simp
  have other: "take 8 [0x04, 0xAB, 0x01, 0xFF, 0, 1, 2, 7, 4, 5 :: byte]
      \<noteq> take 8 [0x04, 0xAB, 0x01, 0xFF, 0, 1, 2, 3, 4, 5]"
    by simp
  have spelled: "specifiedFingerprint [0x04, 0xAB, 0x01, 0xFF, 0, 1, 2, 3, 4, 5]
      = js ''04AB-01FF-0001-0203''"
    by (simp add: specifiedFingerprint_def upperHexByte_def upperHexDigit_def js_def)
  note fp = generateFingerprint_format [OF len]
  from fp have fmt:
    "isFingerprintFormat (generateFingerprint [0x04, 0xAB, 0x01, 0xFF, 0, 1, 2, 3, 4, 5])"
    by (rule conjunct1)
  from fp spelled have val:
    "generateFingerprint [0x04, 0xAB, 0x01, 0xFF, 0, 1, 2, 3, 4, 5] = js ''04AB-01FF-0001-0203''"
    by simp
  from fp have "\<forall>pk'. take 8 pk' = take 8 [0x04, 0xAB, 0x01, 0xFF, 0, 1, 2, 3, 4, 5 :: byte] \<longrightarrow>
      generateFingerprint pk' = generateFingerprint [0x04, 0xAB, 0x01, 0xFF, 0, 1, 2, 3, 4, 5]"
    by (rule conjunct2 [THEN conjunct2, THEN conjunct2, THEN conjunct1])
  with pre have same: "generateFingerprint [0x04, 0xAB, 0x01, 0xFF, 0, 1, 2, 3, 9, 9, 9]
      = generateFingerprint [0x04, 0xAB, 0x01, 0xFF, 0, 1, 2, 3, 4, 5]"
    by blast
  from fp have "\<forall>pk'. 8 \<le> length pk'
      \<and> generateFingerprint pk' = generateFingerprint [0x04, 0xAB, 0x01, 0xFF, 0, 1, 2, 3, 4, 5]
      \<longrightarrow> take 8 pk' = take 8 [0x04, 0xAB, 0x01, 0xFF, 0, 1, 2, 3, 4, 5 :: byte]"
    by (rule conjunct2 [THEN conjunct2, THEN conjunct2, THEN conjunct2])
  with len' other have differs: "generateFingerprint [0x04, 0xAB, 0x01, 0xFF, 0, 1, 2, 7, 4, 5]
      \<noteq> generateFingerprint [0x04, 0xAB, 0x01, 0xFF, 0, 1, 2, 3, 4, 5]"
    by blast
  from len fmt val same differs show ?thesis by blast
qed

lemma generateFingerprint_example:
  "generateFingerprint [0x04, 0xAB, 0x01, 0xFF, 0, 1, 2, 3, 4, 5] = js ''04AB-01FF-0001-0203''"
  by (simp add: generateFingerprint_def slice_def arrayBufferToHex_def padStart_def
      toString16_def hexDigit_def toUpperCase_def upperChar_def js_def Let_def)

section \<open>Sequencing: proofs\<close>

lemma await_Inr [simp]: "await (Inr x) rest = rest x"
  by (simp add: await_def)

lemma await_Inl [simp]: "await (Inl e) rest = Inl e"
  by (simp add: await_def)

lemma await_eq_Inr: "await p rest = Inr y \<longleftrightarrow> (\<exists>x. p = Inr x \<and> rest x = Inr y)"
  by (cases p) simp_all

section \<open>Imported and restored key pairs: proofs\<close>

lemma importKeyPair_Inr:
  assumes "importKeyPair P exported = Inr kp"
  shows "fingerprint kp = exported_fingerprint exported"
    and "base64ToArrayBuffer P (exported_publicKey exported) = Inr (publicKeyRaw kp)"
  using assms by (auto simp: importKeyPair_def await_eq_Inr)

lemma restoreKeyFromBackup_Inr:
  assumes "restoreKeyFromBackup P backup password = Inr kp"
  shows "fingerprint kp = backup_fingerprint backup"
    and "base64ToArrayBuffer P (backup_publicKey backup) = Inr (publicKeyRaw kp)"
  using assms by (auto simp: restoreKeyFromBackup_def await_eq_Inr)

text \<open>
  C10.  A key pair returned by \<open>importKeyPair\<close>, or by \<open>restoreKeyFromBackup\<close>, carries
  the fingerprint string of the record it was made from, unchanged, and its raw public key
  is the decoded public key of that record: the fingerprint is not computed again from the
  public key, so a record whose fingerprint does not belong to its public key gives a key
  pair with that same mismatch.
\<close>

theorem fingerprint_copied_verbatim:
  "(importKeyPair P exported = Inr kp \<longrightarrow>
      fingerprint kp = exported_fingerprint exported \<and>
      base64ToArrayBuffer P (exported_publicKey exported) = Inr (publicKeyRaw kp))
   \<and> (restoreKeyFromBackup P backup password = Inr kp' \<longrightarrow>
      fingerprint kp' = backup_fingerprint backup \<and>
      base64ToArrayBuffer P (backup_publicKey backup) = Inr (publicKeyRaw kp'))"
  using importKeyPair_Inr [of P exported kp] restoreKeyFromBackup_Inr [of P backup password kp']
  by blast

lemma js_simps [simp]: "js [] = []" "js (c # s) = of_nat (of_char c) # js s"
  by (simp_all add: js_def)

lemma numberToString_digit: "n < 10 \<Longrightarrow> numberToString n = [of_nat (48 + n)]"
  by (subst numberToString.simps) simp

lemma smallPlatform_simps [simp]:
  "btoa smallPlatform = smallBtoa"
  "atob smallPlatform = smallBtoa"
  "JSON_stringify smallPlatform = numberToString"
  "JSON_parse smallPlatform = smallParse"
  "importKey_raw smallPlatform = smallImportRaw"
  "importKey_jwk smallPlatform = (\<lambda>j alg ext us. Inr (EcPrivate j))"
  "exportKey_raw smallPlatform = smallExportRaw"
  "exportKey_jwk smallPlatform = smallExportJwk"
  "deriveBits_ECDH smallPlatform = smallDeriveBits"
  "deriveKey smallPlatform = smallDeriveKey"
  "encrypt smallPlatform = smallEncrypt"
  "decrypt smallPlatform = smallDecrypt"
  by (simp_all add: smallPlatform_def)

lemma import_mismatched:
  "importKeyPair smallPlatform mismatchedExport = Inr smallAlice"
  by (simp add: importKeyPair_def mismatchedExport_def smallAlice_def base64ToArrayBuffer_def
      smallBtoa_def smallParse_def)

lemma TextEncoder_digit: "TextEncoder_encode [0x33] = [0x33]"
  by (simp add: TextEncoder_encode_def scalarOfUnit_def isLeadSurrogate_def isTrailSurrogate_def
      utf8EncodeScalar_def)

lemma TextDecoder_digit: "TextDecoder_decode [0x33] = [0x33]"
  by (simp add: TextDecoder_decode_def stripBOM_def unitsOfScalar_def)

lemma restore_mismatched:
  "restoreKeyFromBackup smallPlatform mismatchedBackup [] = Inr smallAlice"
  by (simp add: restoreKeyFromBackup_def mismatchedBackup_def smallAlice_def
      base64ToArrayBuffer_def smallBtoa_def smallParse_def derivePasswordKey_def
      TextEncoder_encode_def smallHeader_def aadBytes_def TextDecoder_digit)

theorem fingerprint_copied_verbatim_witness:
  "importKeyPair smallPlatform mismatchedExport = Inr smallAlice
   \<and> restoreKeyFromBackup smallPlatform mismatchedBackup [] = Inr smallAlice
   \<and> fingerprint smallAlice = exported_fingerprint mismatchedExport
   \<and> fingerprint smallAlice = backup_fingerprint mismatchedBackup
   \<and> fingerprint smallAlice \<noteq> generateFingerprint (publicKeyRaw smallAlice)"
proof -
  have neq: "fingerprint smallAlice \<noteq> generateFingerprint (publicKeyRaw smallAlice)"
    by (simp add: smallAlice_def generateFingerprint_def slice_def arrayBufferToHex_def
        padStart_def toString16_def hexDigit_def toUpperCase_def upperChar_def Let_def)
  note copied = fingerprint_copied_verbatim [of smallPlatform mismatchedExport smallAlice
      mismatchedBackup "[]" smallAlice]
  from copied import_mismatched
  have a: "fingerprint smallAlice = exported_fingerprint mismatchedExport" by blast
  from copied restore_mismatched
  have b: "fingerprint smallAlice = backup_fingerprint mismatchedBackup" by blast
  from import_mismatched restore_mismatched a b neq show ?thesis by blast
qed

section \<open>Base64 transport encoding: proofs\<close>

lemma unat_ucast_byte: "unat (ucast (b::byte) :: jschar) = unat b"
proof -
  have "unat b < 2 ^ 8" using unsigned_less [of b, where 'a = nat] by simp
  then have "unat b < 2 ^ 16" by simp
  then show ?thesis by (simp add: unsigned_ucast_eq take_bit_nat_eq_self)
qed

lemma ucast_byte_le: "(ucast (b::byte) :: jschar) \<le> 0xFF"
proof -
  have "unat b < 2 ^ 8" using unsigned_less [of b, where 'a = nat] by simp
  then show ?thesis by (simp add: word_le_nat_alt unat_ucast_byte)
qed

lemma ucast_ucast_byte: "(ucast (ucast (b::byte) :: jschar) :: byte) = b"
  by (rule ucast_up_ucast_id) (simp add: is_up)

lemma map_ucast_ucast_bytes [simp]:
  "map ((ucast :: jschar \<Rightarrow> byte) \<circ> (ucast :: byte \<Rightarrow> jschar)) bs = bs"
  by (induction bs) (simp_all add: ucast_ucast_byte)

lemma binary_string_latin1: "list_all (\<lambda>c. c \<le> 0xFF) (map ucast (bs::bytes) :: jsstring)"
  by (simp add: list_all_iff ucast_byte_le)

lemma arrayBufferToBase64_roundtrip:
  assumes "base64_ok P"
  shows "\<exists>s. arrayBufferToBase64 P bs = Inr s \<and> base64ToArrayBuffer P s = Inr bs"
proof -
  from assms binary_string_latin1 [of bs]
  obtain s where "btoa P (map ucast bs) = Inr s" "atob P s = Inr (map ucast bs)"
    unfolding base64_ok_def by blast
  then show ?thesis
    by (simp add: arrayBufferToBase64_def base64ToArrayBuffer_def)
qed

lemma small_base64_ok: "base64_ok smallPlatform"
  by (simp add: base64_ok_def smallBtoa_def)

lemma small_arrayBufferToBase64 [simp]:
  "arrayBufferToBase64 smallPlatform bs = Inr (map ucast bs)"
  by (simp add: arrayBufferToBase64_def smallBtoa_def binary_string_latin1)

lemma small_base64ToArrayBuffer [simp]:
  "base64ToArrayBuffer smallPlatform (map ucast bs) = Inr bs"
  by (simp add: base64ToArrayBuffer_def smallBtoa_def binary_string_latin1)

section \<open>Text codec on ASCII: proofs\<close>

lemma ascii_not_surrogate:
  assumes "c < (0x80 :: jschar)"
  shows "\<not> isLeadSurrogate c" and "\<not> isTrailSurrogate c" and "scalarOfUnit c = unat c"
    and "unat c < 0x80"
  using assms
  by (auto simp: isLeadSurrogate_def isTrailSurrogate_def scalarOfUnit_def word_less_nat_alt
      word_le_nat_alt)

lemma toScalarValues_ascii:
  "list_all (\<lambda>c. c < 0x80) s \<Longrightarrow> toScalarValues s = map unat s"
  by (induction s rule: toScalarValues.induct) (simp_all add: ascii_not_surrogate)

lemma TextEncoder_ascii:
  assumes "list_all (\<lambda>c. c < 0x80) s"
  shows "TextEncoder_encode s = map ucast s"
proof -
  have "concat (map utf8EncodeScalar (map unat s)) = map ucast s"
    using assms
    by (induction s) (simp_all add: utf8EncodeScalar_def ascii_not_surrogate)
  then show ?thesis
    using assms by (simp add: TextEncoder_encode_def toScalarValues_ascii)
qed

lemma utf8Decode_ascii:
  "list_all (\<lambda>b. b < 0x80) bs \<Longrightarrow> utf8Decode 0 0 0 0x80 0xBF bs = map unat bs"
  by (induction bs) (simp_all add: word_less_nat_alt Let_def)

lemma TextDecoder_ascii:
  assumes "list_all (\<lambda>b. b < 0x80) bs"
  shows "TextDecoder_decode bs = map ucast bs"
proof -
  have strip: "stripBOM (map unat bs) = map unat bs"
    using assms by (cases bs) (auto simp: stripBOM_def word_less_nat_alt)
  have "concat (map unitsOfScalar (map unat bs)) = map ucast bs"
    using assms
    by (induction bs) (simp_all add: unitsOfScalar_def word_less_nat_alt)
  then show ?thesis
    using assms by (simp add: TextDecoder_decode_def utf8Decode_ascii strip)
qed

lemma jsLess_irrefl: "\<not> jsLess f f"
  by (induction f) auto

lemma jsLess_total: "f \<noteq> g \<Longrightarrow> jsLess f g = (\<not> jsLess g f)"
  by (induction f g rule: jsLess.induct) auto

section \<open>Directional keys: proofs\<close>

lemma deriveBidirectionalKeys_Inr:
  assumes "deriveBidirectionalKeys P myKeyPair theirPublicKey myFp theirFp = Inr keys"
  obtains sharedSecret key1 key2 where
    "deriveSharedSecret P (privateKey myKeyPair) theirPublicKey = Inr sharedSecret"
    "deriveSessionKey P sharedSecret None (TextEncoder_encode (js ''chit-chat-session-key-1''))
       = Inr key1"
    "deriveSessionKey P sharedSecret None (TextEncoder_encode (js ''chit-chat-session-key-2''))
       = Inr key2"
    "dk_sendKey keys = (if jsLess myFp theirFp then key1 else key2)"
    "dk_receiveKey keys = (if jsLess myFp theirFp then key2 else key1)"
  using assms
  by (auto simp: deriveBidirectionalKeys_def await_eq_Inr Let_def simp del: js_simps)

lemma session_labels_distinct:
  "TextEncoder_encode (js ''chit-chat-session-key-1'')
     \<noteq> TextEncoder_encode (js ''chit-chat-session-key-2'')"
  by (simp add: TextEncoder_ascii)

text \<open>
  C3, as the source has it.  When \<open>deriveBidirectionalKeys\<close> returns, both keys were
  derived from the one shared secret of the call, the first under the context label
  \<open>chit-chat-session-key-1\<close> and the second under \<open>chit-chat-session-key-2\<close>, two
  different labels.  A party whose fingerprint is lower in the order of \<open><\<close> on strings
  sends with the first key and receives with the second; any other party sends with the
  second and receives with the first.
\<close>

theorem deriveBidirectionalKeys_assignment:
  assumes "deriveBidirectionalKeys P myKeyPair theirPublicKey myFp theirFp = Inr keys"
  shows "\<exists>sharedSecret key1 key2.
      deriveSharedSecret P (privateKey myKeyPair) theirPublicKey = Inr sharedSecret
    \<and> deriveSessionKey P sharedSecret None
          (TextEncoder_encode (js ''chit-chat-session-key-1'')) = Inr key1
    \<and> deriveSessionKey P sharedSecret None
          (TextEncoder_encode (js ''chit-chat-session-key-2'')) = Inr key2
    \<and> TextEncoder_encode (js ''chit-chat-session-key-1'')
          \<noteq> TextEncoder_encode (js ''chit-chat-session-key-2'')
    \<and> (jsLess myFp theirFp \<longrightarrow> dk_sendKey keys = key1 \<and> dk_receiveKey keys = key2)
    \<and> (\<not> jsLess myFp theirFp \<longrightarrow> dk_sendKey keys = key2 \<and> dk_receiveKey keys = key1)"
proof -
  from assms obtain sharedSecret key1 key2 where
    "deriveSharedSecret P (privateKey myKeyPair) theirPublicKey = Inr sharedSecret"
    "deriveSessionKey P sharedSecret None (TextEncoder_encode (js ''chit-chat-session-key-1''))
       = Inr key1"
    "deriveSessionKey P sharedSecret None (TextEncoder_encode (js ''chit-chat-session-key-2''))
       = Inr key2"
    "dk_sendKey keys = (if jsLess myFp theirFp then key1 else key2)"
    "dk_receiveKey keys = (if jsLess myFp theirFp then key2 else key1)"
    by (rule deriveBidirectionalKeys_Inr)
  with session_labels_distinct show ?thesis
    by (intro exI [of _ sharedSecret] exI [of _ key1] exI [of _ key2]) simp
qed

lemma small_sessionKey:
  "deriveSessionKey smallPlatform s None info = Inr (SecretKey (s @ replicate 32 0 @ info))"
  by (simp add: deriveSessionKey_def KEY_SIZE_def)

lemma small_alice_bob_keys:
  "deriveBidirectionalKeys smallPlatform smallAlice (EcPublic 32) f g =
     Inr \<lparr>dk_sendKey = (if jsLess f g
              then SecretKey ([138] @ replicate 32 0 @ TextEncoder_encode (js ''chit-chat-session-key-1''))
              else SecretKey ([138] @ replicate 32 0 @ TextEncoder_encode (js ''chit-chat-session-key-2''))),
          dk_receiveKey = (if jsLess f g
              then SecretKey ([138] @ replicate 32 0 @ TextEncoder_encode (js ''chit-chat-session-key-2''))
              else SecretKey ([138] @ replicate 32 0 @ TextEncoder_encode (js ''chit-chat-session-key-1'')))\<rparr>"
  by (simp add: deriveBidirectionalKeys_def deriveSharedSecret_def smallAlice_def
      small_sessionKey Let_def del: js_simps)

lemma small_bob_alice_keys:
  "deriveBidirectionalKeys smallPlatform smallBob (EcPublic 8) f g =
     Inr \<lparr>dk_sendKey = (if jsLess f g
              then SecretKey ([138] @ replicate 32 0 @ TextEncoder_encode (js ''chit-chat-session-key-1''))
              else SecretKey ([138] @ replicate 32 0 @ TextEncoder_encode (js ''chit-chat-session-key-2''))),
          dk_receiveKey = (if jsLess f g
              then SecretKey ([138] @ replicate 32 0 @ TextEncoder_encode (js ''chit-chat-session-key-2''))
              else SecretKey ([138] @ replicate 32 0 @ TextEncoder_encode (js ''chit-chat-session-key-1'')))\<rparr>"
  by (simp add: deriveBidirectionalKeys_def deriveSharedSecret_def smallBob_def
      small_sessionKey Let_def del: js_simps)

theorem deriveBidirectionalKeys_assignment_witness:
  "\<exists>keys sharedSecret key1 key2.
      deriveBidirectionalKeys smallPlatform smallAlice (EcPublic 32) (js ''A'') (js ''B'')
        = Inr keys
    \<and> deriveSharedSecret smallPlatform (privateKey smallAlice) (EcPublic 32) = Inr sharedSecret
    \<and> deriveSessionKey smallPlatform sharedSecret None
          (TextEncoder_encode (js ''chit-chat-session-key-1'')) = Inr key1
    \<and> deriveSessionKey smallPlatform sharedSecret None
          (TextEncoder_encode (js ''chit-chat-session-key-2'')) = Inr key2
    \<and> jsLess (js ''A'') (js ''B'') \<and> dk_sendKey keys = key1 \<and> dk_receiveKey keys = key2"
proof -
  have less: "jsLess (js ''A'') (js ''B'')" by simp
  obtain keys where
    keys: "deriveBidirectionalKeys smallPlatform smallAlice (EcPublic 32) (js ''A'') (js ''B'')
      = Inr keys"
    using small_alice_bob_keys [of "js ''A''" "js ''B''"] by blast
  from deriveBidirectionalKeys_assignment [OF keys] less keys show ?thesis
    by blast
qed

lemma small_claimed_keys:
  "claimedBidirectionalKeys smallPlatform smallAlice (EcPublic 32) f g =
     Inr \<lparr>dk_sendKey = (if jsLess f g
              then SecretKey ([138] @ replicate 32 0 @ TextEncoder_encode (js ''session-key-1''))
              else SecretKey ([138] @ replicate 32 0 @ TextEncoder_encode (js ''session-key-2''))),
          dk_receiveKey = (if jsLess f g
              then SecretKey ([138] @ replicate 32 0 @ TextEncoder_encode (js ''session-key-2''))
              else SecretKey ([138] @ replicate 32 0 @ TextEncoder_encode (js ''session-key-1'')))\<rparr>"
  by (simp add: claimedBidirectionalKeys_def deriveSharedSecret_def smallAlice_def
      small_sessionKey Let_def del: js_simps)

text \<open>
  C3, as the specification words it, names the labels \<open>session-key-1\<close> and
  \<open>session-key-2\<close>.  Keys derived under those labels are not the keys of the source.
\<close>

theorem session_key_labels_counterexample:
  "deriveBidirectionalKeys smallPlatform smallAlice (EcPublic 32) (js ''A'') (js ''B'')
     \<noteq> claimedBidirectionalKeys smallPlatform smallAlice (EcPublic 32) (js ''A'') (js ''B'')"
proof -
  have "TextEncoder_encode (js ''chit-chat-session-key-1'')
      \<noteq> TextEncoder_encode (js ''session-key-1'')"
    by (simp add: TextEncoder_ascii)
  then show ?thesis
    unfolding small_alice_bob_keys small_claimed_keys by simp
qed

text \<open>
  With two different fingerprints the two parties agree: what one sends with, the other
  receives with.
\<close>

lemma deriveBidirectionalKeys_symmetric:
  assumes a: "deriveBidirectionalKeys P alice pubB fa fb = Inr ka"
    and b: "deriveBidirectionalKeys P bob pubA fb fa = Inr kb"
    and agree: "deriveSharedSecret P (privateKey alice) pubB
                  = deriveSharedSecret P (privateKey bob) pubA"
    and distinct: "fa \<noteq> fb"
  shows "dk_sendKey ka = dk_receiveKey kb \<and> dk_receiveKey ka = dk_sendKey kb"
proof -
  from a obtain s k1 k2 where A:
    "deriveSharedSecret P (privateKey alice) pubB = Inr s"
    "deriveSessionKey P s None (TextEncoder_encode (js ''chit-chat-session-key-1'')) = Inr k1"
    "deriveSessionKey P s None (TextEncoder_encode (js ''chit-chat-session-key-2'')) = Inr k2"
    "dk_sendKey ka = (if jsLess fa fb then k1 else k2)"
    "dk_receiveKey ka = (if jsLess fa fb then k2 else k1)"
    by (rule deriveBidirectionalKeys_Inr)
  from b obtain s' k1' k2' where B:
    "deriveSharedSecret P (privateKey bob) pubA = Inr s'"
    "deriveSessionKey P s' None (TextEncoder_encode (js ''chit-chat-session-key-1'')) = Inr k1'"
    "deriveSessionKey P s' None (TextEncoder_encode (js ''chit-chat-session-key-2'')) = Inr k2'"
    "dk_sendKey kb = (if jsLess fb fa then k1' else k2')"
    "dk_receiveKey kb = (if jsLess fb fa then k2' else k1')"
    by (rule deriveBidirectionalKeys_Inr)
  from A(1) B(1) agree have "s' = s" by simp
  with A(2,3) B(2,3) have "k1' = k1" "k2' = k2" by simp_all
  with A(4,5) B(4,5) jsLess_total [OF distinct] show ?thesis by simp
qed

text \<open>
  C2.  With two equal fingerprints neither party is the lower one, and both take the second
  key to send and the first to receive.  The two parties then hold the same assignment,
  and, the two derived keys being different, what one sends with is not what the other
  receives with: the symmetry of the claim fails for equal fingerprints.
\<close>

theorem deriveBidirectionalKeys_equal_fingerprints:
  assumes a: "deriveBidirectionalKeys P alice pubB f f = Inr ka"
    and b: "deriveBidirectionalKeys P bob pubA f f = Inr kb"
    and agree: "deriveSharedSecret P (privateKey alice) pubB
                  = deriveSharedSecret P (privateKey bob) pubA"
  shows "dk_sendKey ka = dk_sendKey kb \<and> dk_receiveKey ka = dk_receiveKey kb
       \<and> (dk_sendKey ka \<noteq> dk_receiveKey ka \<longrightarrow>
            dk_sendKey ka \<noteq> dk_receiveKey kb \<and> dk_receiveKey ka \<noteq> dk_sendKey kb)"
proof -
  from a obtain s k1 k2 where A:
    "deriveSharedSecret P (privateKey alice) pubB = Inr s"
    "deriveSessionKey P s None (TextEncoder_encode (js ''chit-chat-session-key-1'')) = Inr k1"
    "deriveSessionKey P s None (TextEncoder_encode (js ''chit-chat-session-key-2'')) = Inr k2"
    "dk_sendKey ka = (if jsLess f f then k1 else k2)"
    "dk_receiveKey ka = (if jsLess f f then k2 else k1)"
    by (rule deriveBidirectionalKeys_Inr)
  from b obtain s' k1' k2' where B:
    "deriveSharedSecret P (privateKey bob) pubA = Inr s'"
    "deriveSessionKey P s' None (TextEncoder_encode (js ''chit-chat-session-key-1'')) = Inr k1'"
    "deriveSessionKey P s' None (TextEncoder_encode (js ''chit-chat-session-key-2'')) = Inr k2'"
    "dk_sendKey kb = (if jsLess f f then k1' else k2')"
    "dk_receiveKey kb = (if jsLess f f then k2' else k1')"
    by (rule deriveBidirectionalKeys_Inr)
  from A(1) B(1) agree have "s' = s" by simp
  with A(2,3) B(2,3) have "k1' = k1" "k2' = k2" by simp_all
  with A(4,5) B(4,5) show ?thesis by (simp add: jsLess_irrefl)
qed

theorem deriveBidirectionalKeys_equal_fingerprints_witness:
  "\<exists>ka kb.
      deriveBidirectionalKeys smallPlatform smallAlice (EcPublic 32)
        (js ''0408-0000-0000-0000'') (js ''0408-0000-0000-0000'') = Inr ka
    \<and> deriveBidirectionalKeys smallPlatform smallBob (EcPublic 8)
        (js ''0408-0000-0000-0000'') (js ''0408-0000-0000-0000'') = Inr kb
    \<and> deriveSharedSecret smallPlatform (privateKey smallAlice) (EcPublic 32)
        = deriveSharedSecret smallPlatform (privateKey smallBob) (EcPublic 8)
    \<and> dk_sendKey ka \<noteq> dk_receiveKey kb \<and> dk_receiveKey ka \<noteq> dk_sendKey kb"
proof -
  let ?f = "js ''0408-0000-0000-0000''"
  define ka where "ka =
    \<lparr>dk_sendKey = SecretKey ([138] @ replicate 32 0
              @ TextEncoder_encode (js ''chit-chat-session-key-2'')),
     dk_receiveKey = SecretKey ([138] @ replicate 32 0
              @ TextEncoder_encode (js ''chit-chat-session-key-1''))\<rparr>"
  have ka: "deriveBidirectionalKeys smallPlatform smallAlice (EcPublic 32) ?f ?f = Inr ka"
    unfolding ka_def small_alice_bob_keys by (simp add: jsLess_irrefl del: js_simps)
  have sa: "dk_sendKey ka
      = SecretKey ([138] @ replicate 32 0 @ TextEncoder_encode (js ''chit-chat-session-key-2''))"
    and ra: "dk_receiveKey ka
      = SecretKey ([138] @ replicate 32 0 @ TextEncoder_encode (js ''chit-chat-session-key-1''))"
    by (simp_all add: ka_def)
  obtain kb where kb: "deriveBidirectionalKeys smallPlatform smallBob (EcPublic 8) ?f ?f = Inr kb"
    using small_bob_alice_keys [of ?f ?f] by blast
  have agree: "deriveSharedSecret smallPlatform (privateKey smallAlice) (EcPublic 32)
      = deriveSharedSecret smallPlatform (privateKey smallBob) (EcPublic 8)"
    by (simp add: deriveSharedSecret_def smallAlice_def smallBob_def)
  have differ: "dk_sendKey ka \<noteq> dk_receiveKey ka"
    unfolding sa ra using session_labels_distinct by simp
  from deriveBidirectionalKeys_equal_fingerprints [OF ka kb agree] differ ka kb agree
  show ?thesis by blast
qed

section \<open>Password-protected backup: proofs\<close>

lemma generateRandomBytes_length: "length (fst (generateRandomBytes n w)) = n"
  by (simp add: generateRandomBytes_def)

lemma createKeyBackup_Inr:
  assumes "createKeyBackup P keyPair password w = (Inr backup, w')"
  obtains passwordKey jwk encryptedKey rawPublic where
    "derivePasswordKey P password
       (map (entropy w) [entropyDrawn w ..< entropyDrawn w + 32]) = Inr passwordKey"
    "exportKey_jwk P (privateKey keyPair) = Inr jwk"
    "encrypt P \<lparr>gcm_iv = map (entropy w) [entropyDrawn w + 32 ..< entropyDrawn w + 44],
                 gcm_additionalData = None, gcm_tagLength = None\<rparr>
       passwordKey (TextEncoder_encode (JSON_stringify P jwk)) = Inr encryptedKey"
    "exportKey_raw P (publicKey keyPair) = Inr rawPublic"
    "arrayBufferToBase64 P encryptedKey = Inr (backup_encryptedPrivateKey backup)"
    "arrayBufferToBase64 P (map (entropy w) [entropyDrawn w ..< entropyDrawn w + 32])
       = Inr (backup_salt backup)"
    "arrayBufferToBase64 P (map (entropy w) [entropyDrawn w + 32 ..< entropyDrawn w + 44])
       = Inr (backup_iv backup)"
    "arrayBufferToBase64 P rawPublic = Inr (backup_publicKey backup)"
    "backup_fingerprint backup = fingerprint keyPair"
    "entropyDrawn w' = entropyDrawn w + 44"
proof -
  from assms show ?thesis
    unfolding createKeyBackup_def generateRandomBytes_def SALT_LENGTH_def
    by (auto simp: await_eq_Inr Let_def add.assoc intro!: that)
qed

text \<open>
  C8.  The backup key is what PBKDF2 with SHA-256 and the fixed count of 310000 rounds
  (at least 300000) derives from the UTF-8 bytes of the password and the salt, as an
  AES-GCM key of 256 bits: a function of password and salt alone.  A backup that
  \<open>createKeyBackup\<close> returns was made with a salt of 32 bytes and a nonce of 12 bytes,
  the next 44 bytes of the random source, which the call consumes; the record holds both,
  and the private key encrypted under the key derived with that salt and under that nonce.
\<close>

theorem backup_key_derivation:
  "300000 \<le> PBKDF2_ITERATIONS \<and> 32 \<le> SALT_LENGTH
   \<and> derivePasswordKey P password salt =
        await (importKey_raw P (TextEncoder_encode password) Import_PBKDF2 False
                 [Usage_deriveKey])
          (\<lambda>baseKey. deriveKey P (PBKDF2 salt PBKDF2_ITERATIONS SHA_256) baseKey (AES_GCM 256)
                        False [Usage_encrypt, Usage_decrypt])
   \<and> (createKeyBackup P keyPair password w = (Inr backup, w') \<longrightarrow>
        (\<exists>freshSalt freshIv passwordKey.
            freshSalt = map (entropy w) [entropyDrawn w ..< entropyDrawn w + SALT_LENGTH]
          \<and> freshIv = map (entropy w)
                [entropyDrawn w + SALT_LENGTH ..< entropyDrawn w + SALT_LENGTH + 12]
          \<and> length freshSalt = SALT_LENGTH \<and> length freshIv = 12
          \<and> entropyDrawn w' = entropyDrawn w + SALT_LENGTH + 12
          \<and> arrayBufferToBase64 P freshSalt = Inr (backup_salt backup)
          \<and> arrayBufferToBase64 P freshIv = Inr (backup_iv backup)
          \<and> derivePasswordKey P password freshSalt = Inr passwordKey
          \<and> (\<exists>jwk encryptedKey.
                exportKey_jwk P (privateKey keyPair) = Inr jwk
              \<and> encrypt P \<lparr>gcm_iv = freshIv, gcm_additionalData = None, gcm_tagLength = None\<rparr>
                    passwordKey (TextEncoder_encode (JSON_stringify P jwk)) = Inr encryptedKey
              \<and> arrayBufferToBase64 P encryptedKey
                    = Inr (backup_encryptedPrivateKey backup))))"
proof -
  have bounds: "300000 \<le> PBKDF2_ITERATIONS" "32 \<le> SALT_LENGTH"
    by (simp_all add: PBKDF2_ITERATIONS_def SALT_LENGTH_def)
  have derive: "derivePasswordKey P password salt =
        await (importKey_raw P (TextEncoder_encode password) Import_PBKDF2 False
                 [Usage_deriveKey])
          (\<lambda>baseKey. deriveKey P (PBKDF2 salt PBKDF2_ITERATIONS SHA_256) baseKey (AES_GCM 256)
                        False [Usage_encrypt, Usage_decrypt])"
    by (simp add: derivePasswordKey_def Let_def)
  have backup: "\<exists>freshSalt freshIv passwordKey.
            freshSalt = map (entropy w) [entropyDrawn w ..< entropyDrawn w + SALT_LENGTH]
          \<and> freshIv = map (entropy w)
                [entropyDrawn w + SALT_LENGTH ..< entropyDrawn w + SALT_LENGTH + 12]
          \<and> length freshSalt = SALT_LENGTH \<and> length freshIv = 12
          \<and> entropyDrawn w' = entropyDrawn w + SALT_LENGTH + 12
          \<and> arrayBufferToBase64 P freshSalt = Inr (backup_salt backup)
          \<and> arrayBufferToBase64 P freshIv = Inr (backup_iv backup)
          \<and> derivePasswordKey P password freshSalt = Inr passwordKey
          \<and> (\<exists>jwk encryptedKey.
                exportKey_jwk P (privateKey keyPair) = Inr jwk
              \<and> encrypt P \<lparr>gcm_iv = freshIv, gcm_additionalData = None, gcm_tagLength = None\<rparr>
                    passwordKey (TextEncoder_encode (JSON_stringify P jwk)) = Inr encryptedKey
              \<and> arrayBufferToBase64 P encryptedKey
                    = Inr (backup_encryptedPrivateKey backup))"
    if "createKeyBackup P keyPair password w = (Inr backup, w')"
  proof -
    from that obtain passwordKey jwk encryptedKey rawPublic where
      "derivePasswordKey P password
         (map (entropy w) [entropyDrawn w ..< entropyDrawn w + 32]) = Inr passwordKey"
      "exportKey_jwk P (privateKey keyPair) = Inr jwk"
      "encrypt P \<lparr>gcm_iv = map (entropy w) [entropyDrawn w + 32 ..< entropyDrawn w + 44],
                   gcm_additionalData = None, gcm_tagLength = None\<rparr>
         passwordKey (TextEncoder_encode (JSON_stringify P jwk)) = Inr encryptedKey"
      "exportKey_raw P (publicKey keyPair) = Inr rawPublic"
      "arrayBufferToBase64 P encryptedKey = Inr (backup_encryptedPrivateKey backup)"
      "arrayBufferToBase64 P (map (entropy w) [entropyDrawn w ..< entropyDrawn w + 32])
         = Inr (backup_salt backup)"
      "arrayBufferToBase64 P (map (entropy w) [entropyDrawn w + 32 ..< entropyDrawn w + 44])
         = Inr (backup_iv backup)"
      "arrayBufferToBase64 P rawPublic = Inr (backup_publicKey backup)"
      "backup_fingerprint backup = fingerprint keyPair"
      "entropyDrawn w' = entropyDrawn w + 44"
      by (rule createKeyBackup_Inr)
    then show ?thesis
      by (simp add: SALT_LENGTH_def add.assoc)
  qed
  from bounds derive backup show ?thesis by blast
qed

lemma small_derivePasswordKey:
  "derivePasswordKey smallPlatform password salt
     = Inr (SecretKey (TextEncoder_encode password @ salt))"
  by (simp add: derivePasswordKey_def Let_def)

lemma small_createKeyBackup:
  "\<exists>backup w'. createKeyBackup smallPlatform smallAlice password w = (Inr backup, w')"
  by (simp add: createKeyBackup_def generateRandomBytes_def small_derivePasswordKey
      smallAlice_def Let_def)

theorem backup_key_derivation_witness:
  "\<exists>backup w' freshSalt freshIv.
      createKeyBackup smallPlatform smallAlice (js ''pw'') tickingWorld = (Inr backup, w')
    \<and> length freshSalt = 32 \<and> length freshIv = 12
    \<and> arrayBufferToBase64 smallPlatform freshSalt = Inr (backup_salt backup)
    \<and> arrayBufferToBase64 smallPlatform freshIv = Inr (backup_iv backup)
    \<and> entropyDrawn w' = entropyDrawn tickingWorld + 44
    \<and> PBKDF2_ITERATIONS = 310000"
proof -
  obtain backup w' where
    made: "createKeyBackup smallPlatform smallAlice (js ''pw'') tickingWorld = (Inr backup, w')"
    using small_createKeyBackup by blast
  from backup_key_derivation [of smallPlatform "js ''pw''" "[]" smallAlice tickingWorld backup w']
    made
  obtain freshSalt freshIv where fresh:
    "length freshSalt = SALT_LENGTH" "length freshIv = 12"
    "arrayBufferToBase64 smallPlatform freshSalt = Inr (backup_salt backup)"
    "arrayBufferToBase64 smallPlatform freshIv = Inr (backup_iv backup)"
    "entropyDrawn w' = entropyDrawn tickingWorld + SALT_LENGTH + 12"
    by blast
  from fresh(1,5) have "length freshSalt = 32"
    "entropyDrawn w' = entropyDrawn tickingWorld + 44"
    by (simp_all add: SALT_LENGTH_def)
  moreover have "PBKDF2_ITERATIONS = 310000"
    by (simp add: PBKDF2_ITERATIONS_def)
  ultimately show ?thesis
    using made fresh(2,3,4) by blast
qed

section \<open>The small platform satisfies the laws: proofs\<close>

lemma selfDelimited_unique:
  "selfDelimited x @ r = selfDelimited y @ s \<Longrightarrow> x = y \<and> r = s"
proof (induction x arbitrary: y)
  case Nil
  then show ?case by (cases y) simp_all
next
  case (Cons b x)
  then show ?case by (cases y) simp_all
qed

lemma smallHeader_unique:
  assumes "smallHeader k p @ r = smallHeader k' p' @ r'"
  shows "k = k'" and "gcm_iv p = gcm_iv p'"
    and "aadBytes (gcm_additionalData p) = aadBytes (gcm_additionalData p')" and "r = r'"
proof -
  from assms have 1: "k = k' \<and> selfDelimited (gcm_iv p)
        @ selfDelimited (aadBytes (gcm_additionalData p)) @ r
      = selfDelimited (gcm_iv p') @ selfDelimited (aadBytes (gcm_additionalData p')) @ r'"
    using selfDelimited_unique [of k _ k'] by (simp add: smallHeader_def)
  then have 2: "gcm_iv p = gcm_iv p' \<and> selfDelimited (aadBytes (gcm_additionalData p)) @ r
      = selfDelimited (aadBytes (gcm_additionalData p')) @ r'"
    using selfDelimited_unique by blast
  then have 3: "aadBytes (gcm_additionalData p) = aadBytes (gcm_additionalData p') \<and> r = r'"
    using selfDelimited_unique by blast
  from 1 2 3 show "k = k'" "gcm_iv p = gcm_iv p'"
    "aadBytes (gcm_additionalData p) = aadBytes (gcm_additionalData p')" "r = r'"
    by simp_all
qed

lemma untwice_twice: "untwice (twice d) = Some d"
  by (induction d) simp_all

lemma untwice_Some: "untwice c = Some d \<Longrightarrow> c = twice d"
  by (induction c arbitrary: d rule: untwice.induct) (auto split: if_splits option.splits)

declare smallDecrypt.simps [simp del]

lemma smallDecrypt_Inr:
  "smallDecrypt p (SecretKey k) c = Inr d \<longleftrightarrow> c = smallHeader k p @ twice d"
proof
  assume "smallDecrypt p (SecretKey k) c = Inr d"
  then have "take (length (smallHeader k p)) c = smallHeader k p"
    and "untwice (drop (length (smallHeader k p)) c) = Some d"
    by (auto simp: smallDecrypt.simps Let_def split: if_splits option.splits)
  then have "take (length (smallHeader k p)) c = smallHeader k p"
    and "drop (length (smallHeader k p)) c = twice d"
    by (simp_all add: untwice_Some)
  then show "c = smallHeader k p @ twice d"
    by (metis append_take_drop_id)
next
  assume "c = smallHeader k p @ twice d"
  then show "smallDecrypt p (SecretKey k) c = Inr d"
    by (simp add: smallDecrypt.simps untwice_twice)
qed

lemma smallDecrypt_refused:
  assumes "\<And>d. c \<noteq> smallHeader k p @ twice d"
  shows "smallDecrypt p (SecretKey k) c = Inl OperationError"
proof (cases "smallDecrypt p (SecretKey k) c")
  case (Inl e)
  then show ?thesis
    by (auto simp: smallDecrypt.simps Let_def split: if_splits option.splits)
next
  case (Inr d)
  with assms show ?thesis by (simp add: smallDecrypt_Inr)
qed

lemma smallEncrypt_Inr:
  "smallEncrypt p key d = Inr c \<longleftrightarrow> (\<exists>k. key = SecretKey k \<and> c = smallHeader k p @ twice d)"
  by (cases key) auto

lemma small_aesGcmKey: "aesGcmKey smallPlatform (SecretKey k)"
  by (simp add: aesGcmKey_def smallDecrypt_Inr)

lemma small_aesGcmKey_iff: "aesGcmKey smallPlatform key \<longleftrightarrow> (\<exists>k. key = SecretKey k)"
proof
  let ?p = "\<lparr>gcm_iv = replicate 12 0, gcm_additionalData = None, gcm_tagLength = None\<rparr>"
  assume "aesGcmKey smallPlatform key"
  then have "length (gcm_iv ?p) = 12 \<longrightarrow>
      (\<exists>c. smallEncrypt ?p key [] = Inr c \<and> smallDecrypt ?p key c = Inr [])"
    unfolding aesGcmKey_def smallPlatform_simps by blast
  then obtain c where "smallEncrypt ?p key [] = Inr c" by auto
  then show "\<exists>k. key = SecretKey k" by (auto simp: smallEncrypt_Inr)
next
  assume "\<exists>k. key = SecretKey k"
  then show "aesGcmKey smallPlatform key" using small_aesGcmKey by blast
qed

lemma small_bindsAssociatedData: "bindsAssociatedData smallPlatform (SecretKey k)"
  unfolding bindsAssociatedData_def
proof (intro allI impI)
  fix p d c a
  assume enc: "encrypt smallPlatform p (SecretKey k) d = Inr c"
    and diff: "aadBytes a \<noteq> aadBytes (gcm_additionalData p)"
  from enc have c: "c = smallHeader k p @ twice d" by simp
  have "c \<noteq> smallHeader k (p\<lparr>gcm_additionalData := a\<rparr>) @ twice d'" for d'
    using smallHeader_unique(3) [of k "p\<lparr>gcm_additionalData := a\<rparr>" "twice d'" k p "twice d"]
      diff c by auto
  then show "decrypt smallPlatform (p\<lparr>gcm_additionalData := a\<rparr>) (SecretKey k) c
      = Inl OperationError"
    by (simp add: smallDecrypt_refused)
qed

lemma small_keyBinding: "keyBinding smallPlatform"
  unfolding keyBinding_def
proof (intro allI impI)
  fix p k k' d c
  assume enc: "encrypt smallPlatform p k d = Inr c"
    and aes: "aesGcmKey smallPlatform k'" and diff: "k' \<noteq> k"
  from enc obtain m where k: "k = SecretKey m" and c: "c = smallHeader m p @ twice d"
    by (auto simp: smallEncrypt_Inr)
  from aes obtain m' where k': "k' = SecretKey m'"
    by (auto simp: small_aesGcmKey_iff)
  from diff k k' have "m' \<noteq> m" by simp
  then have "c \<noteq> smallHeader m' p @ twice d'" for d'
    using smallHeader_unique(1) [of m' p "twice d'" m p "twice d"] c by auto
  then show "decrypt smallPlatform p k' c = Inl OperationError"
    by (simp add: k' smallDecrypt_refused)
qed

section \<open>Message cipher: proofs\<close>

lemma concatUint8Arrays_pair: "concatUint8Arrays [a, b] = a @ b"
  by (simp add: concatUint8Arrays_def setAt_def)

lemma encryptMessage_Inr:
  assumes "encryptMessage P k m aad w = (Inr msg, w')"
  obtains ct where
    "encrypt P \<lparr>gcm_iv = map (entropy w) [entropyDrawn w ..< entropyDrawn w + 12],
                 gcm_additionalData = aad, gcm_tagLength = Some 128\<rparr> k (TextEncoder_encode m)
       = Inr ct"
    "arrayBufferToBase64 P (map (entropy w) [entropyDrawn w ..< entropyDrawn w + 12] @ ct)
       = Inr (ciphertext msg)"
    "timestamp msg = clock w (clockReads w)"
    "w' = w\<lparr>clockReads := clockReads w + 1, entropyDrawn := entropyDrawn w + 12\<rparr>"
  using assms
  unfolding encryptMessage_def generateRandomBytes_def Date_now_def IV_LENGTH_def
  by (auto simp: Let_def concatUint8Arrays_pair split: sum.splits)

lemma decryptMessage_decoded:
  assumes "base64ToArrayBuffer P (ciphertext msg) = Inr (iv @ ct)" and "length iv = 12"
  shows "decryptMessage P k msg a =
     await (decrypt P \<lparr>gcm_iv = iv, gcm_additionalData = a, gcm_tagLength = Some 128\<rparr> k ct)
       (\<lambda>pt. Inr \<lparr>plaintext = TextDecoder_decode pt, decrypted_timestamp = timestamp msg\<rparr>)"
  using assms by (simp add: decryptMessage_def slice_def IV_LENGTH_def Let_def)

lemma base64ToArrayBuffer_of_encoded:
  assumes "base64_ok P" and "arrayBufferToBase64 P bs = Inr s"
  shows "base64ToArrayBuffer P s = Inr bs"
  using arrayBufferToBase64_roundtrip [OF assms(1), of bs] assms(2) by auto

lemma encryptMessage_succeeds:
  assumes "base64_ok P" and "aesGcmKey P k"
  shows "\<exists>msg w'. encryptMessage P k m aad w = (Inr msg, w')"
proof -
  let ?iv = "map (entropy w) [entropyDrawn w ..< entropyDrawn w + 12]"
  let ?p = "\<lparr>gcm_iv = ?iv, gcm_additionalData = aad, gcm_tagLength = Some 128\<rparr>"
  have "length (gcm_iv ?p) = 12" by simp
  with assms(2) obtain ct where ct: "encrypt P ?p k (TextEncoder_encode m) = Inr ct"
    unfolding aesGcmKey_def by blast
  from arrayBufferToBase64_roundtrip [OF assms(1), of "?iv @ ct"]
  obtain s where "arrayBufferToBase64 P (?iv @ ct) = Inr s" by blast
  with ct show ?thesis
    unfolding encryptMessage_def generateRandomBytes_def Date_now_def IV_LENGTH_def
    by (simp add: Let_def concatUint8Arrays_pair)
qed

text \<open>
  Decrypting what \<open>encryptMessage\<close> made, with the same key and associated data, gives
  the timestamp of the message and the text that decoding the encoded plaintext gives.
\<close>

lemma decryptMessage_encryptMessage:
  assumes b64: "base64_ok P" and key: "aesGcmKey P k"
    and enc: "encryptMessage P k m aad w = (Inr msg, w')"
  shows "decryptMessage P k msg aad =
     Inr \<lparr>plaintext = TextDecoder_decode (TextEncoder_encode m),
          decrypted_timestamp = timestamp msg\<rparr>"
proof -
  let ?iv = "map (entropy w) [entropyDrawn w ..< entropyDrawn w + 12]"
  let ?p = "\<lparr>gcm_iv = ?iv, gcm_additionalData = aad, gcm_tagLength = Some 128\<rparr>"
  from enc obtain ct where ct: "encrypt P ?p k (TextEncoder_encode m) = Inr ct"
    and enc64: "arrayBufferToBase64 P (?iv @ ct) = Inr (ciphertext msg)"
    by (rule encryptMessage_Inr)
  have len: "length (gcm_iv ?p) = 12" by simp
  with key ct have dec: "decrypt P ?p k ct = Inr (TextEncoder_encode m)"
    unfolding aesGcmKey_def by (metis sum.inject(2))
  from base64ToArrayBuffer_of_encoded [OF b64 enc64]
  have "decryptMessage P k msg aad =
     await (decrypt P ?p k ct)
       (\<lambda>pt. Inr \<lparr>plaintext = TextDecoder_decode pt, decrypted_timestamp = timestamp msg\<rparr>)"
    by (rule decryptMessage_decoded) simp
  with dec show ?thesis by simp
qed

section \<open>A leading U+FEFF: proofs\<close>

lemma ascii_ucast_ucast:
  assumes "c < (0x80 :: jschar)"
  shows "(ucast (ucast c :: byte) :: jschar) = c" and "(ucast c :: byte) < 0x80"
proof -
  from assms have small: "unat c < 128" by (simp add: word_less_nat_alt)
  then have u: "unat (ucast c :: byte) = unat c"
    by (simp add: unsigned_ucast_eq take_bit_nat_eq_self)
  then have "unat (ucast (ucast c :: byte) :: jschar) = unat c"
    by (simp add: unat_ucast_byte)
  then show "(ucast (ucast c :: byte) :: jschar) = c" by (simp add: word_unat_eq_iff)
  from u small show "(ucast c :: byte) < 0x80" by (simp add: word_less_nat_alt)
qed

lemma ascii_bytes:
  assumes "list_all (\<lambda>c. c < 0x80) (s :: jsstring)"
  shows "list_all (\<lambda>b. b < 0x80) (map ucast s :: bytes)"
    and "map ucast (map ucast s :: bytes) = s"
  using assms by (induction s) (simp_all add: ascii_ucast_ucast)

lemma TextDecoder_TextEncoder_ascii:
  assumes "list_all (\<lambda>c. c < 0x80) s"
  shows "TextDecoder_decode (TextEncoder_encode s) = s"
  using assms by (simp add: TextEncoder_ascii TextDecoder_ascii ascii_bytes del: map_map)

lemma TextEncoder_BOM_ascii:
  assumes "list_all (\<lambda>c. c < 0x80) s"
  shows "TextEncoder_encode (0xFEFF # s) = 0xEF # 0xBB # 0xBF # map ucast s"
proof -
  have "toScalarValues (0xFEFF # s) = 0xFEFF # toScalarValues s"
    by (cases s) (simp_all add: isLeadSurrogate_def isTrailSurrogate_def scalarOfUnit_def)
  moreover have "utf8EncodeScalar 0xFEFF = [0xEF, 0xBB, 0xBF]"
    by (simp add: utf8EncodeScalar_def)
  moreover have "concat (map utf8EncodeScalar (toScalarValues s)) = map ucast s"
    using TextEncoder_ascii [OF assms] by (simp add: TextEncoder_encode_def)
  ultimately show ?thesis by (simp add: TextEncoder_encode_def)
qed

lemma TextDecoder_BOM_ascii:
  assumes "list_all (\<lambda>b. b < 0x80) bs"
  shows "TextDecoder_decode (0xEF # 0xBB # 0xBF # bs) = map ucast bs"
proof -
  have "utf8Decode 0 0 0 0x80 0xBF (0xEF # 0xBB # 0xBF # bs)
      = 0xFEFF # utf8Decode 0 0 0 0x80 0xBF bs"
    by (simp add: Let_def)
  then have "stripBOM (utf8Decode 0 0 0 0x80 0xBF (0xEF # 0xBB # 0xBF # bs))
      = stripBOM (utf8Decode 0 0 0 0x80 0xBF bs)"
    using assms by (cases bs) (auto simp: stripBOM_def utf8Decode_ascii word_less_nat_alt)
  then show ?thesis
    using TextDecoder_ascii [OF assms] by (simp add: TextDecoder_decode_def)
qed

lemma TextDecoder_TextEncoder_BOM:
  assumes "list_all (\<lambda>c. c < 0x80) s"
  shows "TextDecoder_decode (TextEncoder_encode (0xFEFF # s)) = s"
  using assms
  by (simp add: TextEncoder_BOM_ascii TextDecoder_BOM_ascii ascii_bytes del: map_map)

text \<open>
  C4.  The round trip does not return every plaintext.  A plaintext that begins with the
  code unit U+FEFF, here followed by ASCII text, is encrypted with its first character and
  decrypted without it: \<open>new TextDecoder().decode\<close> takes the three bytes
  \<open>EF BB BF\<close> at the head of the decrypted data for a byte order mark and drops them.
  The timestamp returned is that of the message.
\<close>

theorem decryptMessage_loses_leading_BOM:
  assumes "base64_ok P" and "aesGcmKey P k" and "list_all (\<lambda>c. c < 0x80) s"
    and "encryptMessage P k (0xFEFF # s) aad w = (Inr msg, w')"
  shows "decryptMessage P k msg aad = Inr \<lparr>plaintext = s, decrypted_timestamp = timestamp msg\<rparr>
         \<and> s \<noteq> 0xFEFF # s"
  using decryptMessage_encryptMessage [OF assms(1,2,4)] TextDecoder_TextEncoder_BOM [OF assms(3)]
  by simp

theorem decryptMessage_loses_leading_BOM_witness:
  "\<exists>msg w'.
      encryptMessage smallPlatform (SecretKey [1, 2]) (0xFEFF # js ''hi'') None tickingWorld
        = (Inr msg, w')
    \<and> decryptMessage smallPlatform (SecretKey [1, 2]) msg None
        = Inr \<lparr>plaintext = js ''hi'', decrypted_timestamp = timestamp msg\<rparr>
    \<and> js ''hi'' \<noteq> 0xFEFF # js ''hi''"
proof -
  have ascii: "list_all (\<lambda>c. c < 0x80) (js ''hi'')" by simp
  obtain msg w' where enc:
    "encryptMessage smallPlatform (SecretKey [1, 2]) (0xFEFF # js ''hi'') None tickingWorld
       = (Inr msg, w')"
    using encryptMessage_succeeds [OF small_base64_ok small_aesGcmKey] by blast
  from decryptMessage_loses_leading_BOM [OF small_base64_ok small_aesGcmKey ascii enc] enc
  show ?thesis by blast
qed

section \<open>Associated data: proofs\<close>

lemma digit_unit: "k < 10 \<Longrightarrow> unat (48 + of_nat k :: jschar) = 48 + k"
proof -
  assume "k < 10"
  then have "48 + k < 2 ^ LENGTH(16)" by simp
  then have "unat (of_nat (48 + k) :: jschar) = 48 + k" by (rule of_nat_inverse [OF refl])
  then show ?thesis by simp
qed

lemma numberToString_value:
  "foldl (\<lambda>n c. 10 * n + (unat c - 48)) 0 (numberToString n) = n"
proof (induction n rule: numberToString.induct)
  case (1 n)
  show ?case
  proof (cases "n < 10")
    case True
    then show ?thesis by (subst numberToString.simps) (simp add: digit_unit)
  next
    case False
    then have "numberToString n = numberToString (n div 10) @ [of_nat (48 + n mod 10)]"
      by (subst numberToString.simps) simp
    with False "1.IH" show ?thesis by (simp add: digit_unit)
  qed
qed

lemma numberToString_inj: "numberToString m = numberToString n \<Longrightarrow> m = n"
  by (metis numberToString_value)

lemma numberToString_ascii: "list_all (\<lambda>c. c < 0x80) (numberToString n)"
proof (induction n rule: numberToString.induct)
  case (1 n)
  have digit: "(48 + of_nat k :: jschar) < 0x80" if "k < 10" for k
    using that by (simp add: word_less_nat_alt digit_unit)
  show ?case
  proof (cases "n < 10")
    case True
    then show ?thesis by (subst numberToString.simps) (simp add: digit)
  next
    case False
    then have "numberToString n = numberToString (n div 10) @ [of_nat (48 + n mod 10)]"
      by (subst numberToString.simps) simp
    with False "1.IH" show ?thesis by (simp add: digit)
  qed
qed

lemma toScalarValues_append:
  assumes "d = [] \<or> \<not> isTrailSurrogate (hd d)"
  shows "toScalarValues (p @ d) = toScalarValues p @ toScalarValues d"
  using assms
proof (induction p rule: toScalarValues.induct)
  case 1
  then show ?case by simp
next
  case (2 c)
  then show ?case by (cases d) simp_all
next
  case (3 c e rest)
  then show ?case by simp
qed

lemma TextEncoder_append_ascii:
  assumes "list_all (\<lambda>c. c < 0x80) d"
  shows "TextEncoder_encode (p @ d) = TextEncoder_encode p @ map ucast d"
proof -
  from assms have "d = [] \<or> \<not> isTrailSurrogate (hd d)"
    by (cases d) (simp_all add: ascii_not_surrogate)
  then have "TextEncoder_encode (p @ d) = TextEncoder_encode p @ TextEncoder_encode d"
    by (simp add: TextEncoder_encode_def toScalarValues_append)
  with assms show ?thesis by (simp add: TextEncoder_ascii)
qed

lemma createAAD_timestamp_inj:
  assumes "createAAD sender recipient t = createAAD sender recipient t'"
  shows "t = t'"
proof -
  let ?p = "sender @ js '':'' @ recipient @ js '':''"
  have "createAAD sender recipient n = TextEncoder_encode ?p @ map ucast (numberToString n)"
    for n
    using TextEncoder_append_ascii [OF numberToString_ascii, of ?p n]
    by (simp add: createAAD_def)
  with assms have "(map ucast (numberToString t) :: bytes) = map ucast (numberToString t')"
    by simp
  then have "map ucast (map ucast (numberToString t) :: bytes)
      = (map ucast (map ucast (numberToString t') :: bytes) :: jsstring)"
    by simp
  then have "numberToString t = numberToString t'"
    by (simp only: ascii_bytes(2) [OF numberToString_ascii])
  then show ?thesis by (rule numberToString_inj)
qed

section \<open>Session messages: proofs\<close>

lemma encryptSessionMessage_Inr:
  assumes "encryptSessionMessage P session sender recipient m w = (Inr payload, w')"
  shows "encryptMessage P (sendKey session) m
           (Some (createAAD sender recipient (clock w (clockReads w))))
           (w\<lparr>clockReads := clockReads w + 1\<rparr>) = (Inr (encrypted payload), w')"
    and "senderId payload = sender" and "recipientId payload = recipient"
  using assms
  unfolding encryptSessionMessage_def Date_now_def
  by (auto simp: Let_def split: prod.splits sum.splits)

lemma session_message_decrypt:
  assumes b64: "base64_ok P"
    and keys: "receiveKey bobSession = sendKey aliceSession"
    and enc: "encryptSessionMessage P aliceSession sender recipient m w = (Inr payload, w')"
  obtains iv ct where
    "length iv = 12"
    "encrypt P \<lparr>gcm_iv = iv,
        gcm_additionalData = Some (createAAD sender recipient (clock w (clockReads w))),
        gcm_tagLength = Some 128\<rparr> (sendKey aliceSession) (TextEncoder_encode m) = Inr ct"
    "timestamp (encrypted payload) = clock w (clockReads w + 1)"
    "decryptSessionMessage P bobSession payload =
       await (decrypt P \<lparr>gcm_iv = iv,
                gcm_additionalData = Some (createAAD sender recipient (clock w (clockReads w + 1))),
                gcm_tagLength = Some 128\<rparr> (sendKey aliceSession) ct)
         (\<lambda>pt. Inr \<lparr>plaintext = TextDecoder_decode pt,
                     decrypted_timestamp = clock w (clockReads w + 1)\<rparr>)"
proof -
  let ?w1 = "w\<lparr>clockReads := clockReads w + 1\<rparr>"
  let ?iv = "map (entropy ?w1) [entropyDrawn ?w1 ..< entropyDrawn ?w1 + 12]"
  let ?aad = "Some (createAAD sender recipient (clock w (clockReads w)))"
  note inner = encryptSessionMessage_Inr [OF enc]
  from inner(1) obtain ct where
    ct: "encrypt P \<lparr>gcm_iv = ?iv, gcm_additionalData = ?aad, gcm_tagLength = Some 128\<rparr>
           (sendKey aliceSession) (TextEncoder_encode m) = Inr ct"
    and enc64: "arrayBufferToBase64 P (?iv @ ct) = Inr (ciphertext (encrypted payload))"
    and ts: "timestamp (encrypted payload) = clock ?w1 (clockReads ?w1)"
    by (rule encryptMessage_Inr)
  from ts have ts': "timestamp (encrypted payload) = clock w (clockReads w + 1)" by simp
  have "decryptMessage P (sendKey aliceSession) (encrypted payload)
          (Some (createAAD sender recipient (clock w (clockReads w + 1)))) =
       await (decrypt P \<lparr>gcm_iv = ?iv,
                gcm_additionalData = Some (createAAD sender recipient (clock w (clockReads w + 1))),
                gcm_tagLength = Some 128\<rparr> (sendKey aliceSession) ct)
         (\<lambda>pt. Inr \<lparr>plaintext = TextDecoder_decode pt,
                     decrypted_timestamp = timestamp (encrypted payload)\<rparr>)"
    by (rule decryptMessage_decoded [OF base64ToArrayBuffer_of_encoded [OF b64 enc64]]) simp
  then have "decryptSessionMessage P bobSession payload =
       await (decrypt P \<lparr>gcm_iv = ?iv,
                gcm_additionalData = Some (createAAD sender recipient (clock w (clockReads w + 1))),
                gcm_tagLength = Some 128\<rparr> (sendKey aliceSession) ct)
         (\<lambda>pt. Inr \<lparr>plaintext = TextDecoder_decode pt,
                     decrypted_timestamp = clock w (clockReads w + 1)\<rparr>)"
    by (simp add: decryptSessionMessage_def Let_def inner(2,3) keys ts')
  with ct ts' show ?thesis
    by (intro that [of ?iv ct]) simp_all
qed

text \<open>
  C1.  \<open>encryptSessionMessage\<close> reads the clock for the associated data, and
  \<open>encryptMessage\<close> reads it again, after the encryption, for the timestamp of the
  message; \<open>decryptSessionMessage\<close> builds the associated data from the timestamp of the
  message.  When the two readings differ the decrypting side authenticates other
  associated data than the encrypting side did, and a cipher that binds the associated
  data refuses the message: the round trip between two sessions that share the key fails.
\<close>

theorem session_message_clock_tick:
  assumes b64: "base64_ok P"
    and bind: "bindsAssociatedData P (sendKey aliceSession)"
    and keys: "receiveKey bobSession = sendKey aliceSession"
    and enc: "encryptSessionMessage P aliceSession sender recipient m w = (Inr payload, w')"
    and tick: "clock w (clockReads w + 1) \<noteq> clock w (clockReads w)"
  shows "decryptSessionMessage P bobSession payload = Inl OperationError"
proof -
  let ?t1 = "clock w (clockReads w)" and ?t2 = "clock w (clockReads w + 1)"
  from b64 keys enc obtain iv ct where
    ct: "encrypt P \<lparr>gcm_iv = iv, gcm_additionalData = Some (createAAD sender recipient ?t1),
        gcm_tagLength = Some 128\<rparr> (sendKey aliceSession) (TextEncoder_encode m) = Inr ct"
    and dec: "decryptSessionMessage P bobSession payload =
       await (decrypt P \<lparr>gcm_iv = iv, gcm_additionalData = Some (createAAD sender recipient ?t2),
                gcm_tagLength = Some 128\<rparr> (sendKey aliceSession) ct)
         (\<lambda>pt. Inr \<lparr>plaintext = TextDecoder_decode pt, decrypted_timestamp = ?t2\<rparr>)"
    by (rule session_message_decrypt)
  from tick have "createAAD sender recipient ?t2 \<noteq> createAAD sender recipient ?t1"
    using createAAD_timestamp_inj by blast
  then have "aadBytes (Some (createAAD sender recipient ?t2))
      \<noteq> aadBytes (gcm_additionalData \<lparr>gcm_iv = iv,
            gcm_additionalData = Some (createAAD sender recipient ?t1),
            gcm_tagLength = Some 128\<rparr>)"
    by (simp add: aadBytes_def)
  with bind ct have "decrypt P (\<lparr>gcm_iv = iv,
        gcm_additionalData = Some (createAAD sender recipient ?t1),
        gcm_tagLength = Some 128\<rparr>\<lparr>gcm_additionalData := Some (createAAD sender recipient ?t2)\<rparr>)
      (sendKey aliceSession) ct = Inl OperationError"
    unfolding bindsAssociatedData_def by blast
  with dec show ?thesis by simp
qed

text \<open>When both readings of the clock are the same, the round trip succeeds.\<close>

lemma session_message_roundtrip:
  assumes b64: "base64_ok P"
    and key: "aesGcmKey P (sendKey aliceSession)"
    and keys: "receiveKey bobSession = sendKey aliceSession"
    and enc: "encryptSessionMessage P aliceSession sender recipient m w = (Inr payload, w')"
    and still: "clock w (clockReads w + 1) = clock w (clockReads w)"
  shows "decryptSessionMessage P bobSession payload =
     Inr \<lparr>plaintext = TextDecoder_decode (TextEncoder_encode m),
          decrypted_timestamp = clock w (clockReads w)\<rparr>"
proof -
  let ?t1 = "clock w (clockReads w)" and ?t2 = "clock w (clockReads w + 1)"
  from b64 keys enc obtain iv ct where
    len: "length iv = 12" and
    ct: "encrypt P \<lparr>gcm_iv = iv, gcm_additionalData = Some (createAAD sender recipient ?t1),
        gcm_tagLength = Some 128\<rparr> (sendKey aliceSession) (TextEncoder_encode m) = Inr ct"
    and dec: "decryptSessionMessage P bobSession payload =
       await (decrypt P \<lparr>gcm_iv = iv, gcm_additionalData = Some (createAAD sender recipient ?t2),
                gcm_tagLength = Some 128\<rparr> (sendKey aliceSession) ct)
         (\<lambda>pt. Inr \<lparr>plaintext = TextDecoder_decode pt, decrypted_timestamp = ?t2\<rparr>)"
    by (rule session_message_decrypt)
  let ?p = "\<lparr>gcm_iv = iv, gcm_additionalData = Some (createAAD sender recipient ?t1),
        gcm_tagLength = Some 128\<rparr>"
  from len have "length (gcm_iv ?p) = 12" by simp
  with key ct have "decrypt P ?p (sendKey aliceSession) ct = Inr (TextEncoder_encode m)"
    unfolding aesGcmKey_def by (metis sum.inject(2))
  with dec still show ?thesis by simp
qed

lemma encryptSessionMessage_succeeds:
  assumes "base64_ok P" and "aesGcmKey P (sendKey session)"
  shows "\<exists>payload w'. encryptSessionMessage P session sender recipient m w = (Inr payload, w')"
proof -
  obtain msg w' where "encryptMessage P (sendKey session) m
      (Some (createAAD sender recipient (clock w (clockReads w))))
      (w\<lparr>clockReads := clockReads w + 1\<rparr>) = (Inr msg, w')"
    using encryptMessage_succeeds [OF assms] by blast
  then show ?thesis
    by (simp add: encryptSessionMessage_def Date_now_def Let_def)
qed

lemma small_importPublicKey:
  "importPublicKey smallPlatform [4, 32, 0, 0, 0, 0, 0, 0] = Inr (EcPublic 32)"
  "importPublicKey smallPlatform [4, 8, 0, 0, 0, 0, 0, 0] = Inr (EcPublic 8)"
  by (simp_all add: importPublicKey_def base64ToArrayBuffer_def smallBtoa_def)

lemma small_fingerprint_order:
  "\<not> jsLess (fingerprint smallAlice) (fingerprint smallBob)"
  "jsLess (fingerprint smallBob) (fingerprint smallAlice)"
  by (simp_all add: smallAlice_def smallBob_def)

lemma small_alice_session:
  "\<exists>session.
     establishSecureSession smallPlatform smallAlice [4, 32, 0, 0, 0, 0, 0, 0]
       (fingerprint smallBob) w = (Inr session, w\<lparr>clockReads := clockReads w + 2\<rparr>)
   \<and> sendKey session
       = SecretKey ([138] @ replicate 32 0 @ TextEncoder_encode (js ''chit-chat-session-key-2''))
   \<and> receiveKey session
       = SecretKey ([138] @ replicate 32 0 @ TextEncoder_encode (js ''chit-chat-session-key-1''))"
  by (simp add: establishSecureSession_def small_importPublicKey small_alice_bob_keys
      Date_now_def small_fingerprint_order Let_def del: js_simps)

lemma small_bob_session:
  "\<exists>session.
     establishSecureSession smallPlatform smallBob [4, 8, 0, 0, 0, 0, 0, 0]
       (fingerprint smallAlice) w = (Inr session, w\<lparr>clockReads := clockReads w + 2\<rparr>)
   \<and> sendKey session
       = SecretKey ([138] @ replicate 32 0 @ TextEncoder_encode (js ''chit-chat-session-key-1''))
   \<and> receiveKey session
       = SecretKey ([138] @ replicate 32 0 @ TextEncoder_encode (js ''chit-chat-session-key-2''))"
  by (simp add: establishSecureSession_def small_importPublicKey small_bob_alice_keys
      Date_now_def small_fingerprint_order Let_def del: js_simps)

theorem session_message_clock_tick_witness:
  "\<exists>aliceSession bobSession wa wb payload w'.
      establishSecureSession smallPlatform smallAlice [4, 32, 0, 0, 0, 0, 0, 0]
        (fingerprint smallBob) tickingWorld = (Inr aliceSession, wa)
    \<and> establishSecureSession smallPlatform smallBob [4, 8, 0, 0, 0, 0, 0, 0]
        (fingerprint smallAlice) tickingWorld = (Inr bobSession, wb)
    \<and> receiveKey bobSession = sendKey aliceSession
    \<and> encryptSessionMessage smallPlatform aliceSession (js ''alice'') (js ''bob'')
        (js ''Secret session message!'') wa = (Inr payload, w')
    \<and> clock wa (clockReads wa + 1) \<noteq> clock wa (clockReads wa)
    \<and> decryptSessionMessage smallPlatform bobSession payload = Inl OperationError"
proof -
  let ?wa = "tickingWorld\<lparr>clockReads := clockReads tickingWorld + 2\<rparr>"
  obtain aliceSession where
    alice: "establishSecureSession smallPlatform smallAlice [4, 32, 0, 0, 0, 0, 0, 0]
        (fingerprint smallBob) tickingWorld = (Inr aliceSession, ?wa)"
    and sendA: "sendKey aliceSession
       = SecretKey ([138] @ replicate 32 0 @ TextEncoder_encode (js ''chit-chat-session-key-2''))"
    using small_alice_session [of tickingWorld] by blast
  obtain bobSession where
    bob: "establishSecureSession smallPlatform smallBob [4, 8, 0, 0, 0, 0, 0, 0]
        (fingerprint smallAlice) tickingWorld = (Inr bobSession, ?wa)"
    and recvB: "receiveKey bobSession
       = SecretKey ([138] @ replicate 32 0 @ TextEncoder_encode (js ''chit-chat-session-key-2''))"
    using small_bob_session [of tickingWorld] by blast
  from sendA recvB have keys: "receiveKey bobSession = sendKey aliceSession" by simp
  have aes: "aesGcmKey smallPlatform (sendKey aliceSession)"
    unfolding sendA by (rule small_aesGcmKey)
  have bind: "bindsAssociatedData smallPlatform (sendKey aliceSession)"
    unfolding sendA by (rule small_bindsAssociatedData)
  obtain payload w' where enc:
    "encryptSessionMessage smallPlatform aliceSession (js ''alice'') (js ''bob'')
        (js ''Secret session message!'') ?wa = (Inr payload, w')"
    using encryptSessionMessage_succeeds [OF small_base64_ok aes] by blast
  have tick: "clock ?wa (clockReads ?wa + 1) \<noteq> clock ?wa (clockReads ?wa)"
    by (simp add: tickingWorld_def)
  from session_message_clock_tick [OF small_base64_ok bind keys enc tick] alice bob keys enc tick
  show ?thesis by blast
qed

section \<open>Restoring a backup: proofs\<close>

lemma restoreKeyFromBackup_decoded:
  assumes "base64ToArrayBuffer P (backup_salt backup) = Inr salt"
    and "base64ToArrayBuffer P (backup_iv backup) = Inr iv"
    and "base64ToArrayBuffer P (backup_encryptedPrivateKey backup) = Inr encryptedKey"
  shows "restoreKeyFromBackup P backup pw =
     await (derivePasswordKey P pw salt) (\<lambda>passwordKey.
     await (decrypt P \<lparr>gcm_iv = iv, gcm_additionalData = None, gcm_tagLength = None\<rparr>
              passwordKey encryptedKey) (\<lambda>decryptedData.
     await (JSON_parse P (TextDecoder_decode decryptedData)) (\<lambda>privateKeyJwk.
     await (importKey_jwk P privateKeyJwk Import_ECDH_P256 True
              [Usage_deriveKey, Usage_deriveBits]) (\<lambda>priv.
     await (base64ToArrayBuffer P (backup_publicKey backup)) (\<lambda>rawPublic.
     await (importKey_raw P rawPublic Import_ECDH_P256 True []) (\<lambda>pub.
       Inr \<lparr>publicKey = pub, privateKey = priv, publicKeyRaw = rawPublic,
            fingerprint = backup_fingerprint backup\<rparr>))))))"
  using assms by (simp add: restoreKeyFromBackup_def)

lemma upt_length_12: "length (map f [n + 32 ..< n + 44]) = 12"
  by simp

lemma backup_restore_both:
  assumes b64: "base64_ok P"
    and made: "createKeyBackup P keyPair password w = (Inr backup, w')"
    and aes: "\<forall>pw s key. derivePasswordKey P pw s = Inr key \<longrightarrow> aesGcmKey P key"
    and binding: "keyBinding P"
    and jwk: "\<forall>j. exportKey_jwk P (privateKey keyPair) = Inr j \<longrightarrow>
        (\<exists>j' priv. JSON_parse P (TextDecoder_decode (TextEncoder_encode (JSON_stringify P j)))
                     = Inr j'
          \<and> importKey_jwk P j' Import_ECDH_P256 True [Usage_deriveKey, Usage_deriveBits]
                     = Inr priv)"
    and raw: "\<forall>r. exportKey_raw P (publicKey keyPair) = Inr r \<longrightarrow>
        (\<exists>pub. importKey_raw P r Import_ECDH_P256 True [] = Inr pub)"
  shows "(\<exists>restored. restoreKeyFromBackup P backup password = Inr restored
            \<and> fingerprint restored = fingerprint keyPair)
       \<and> (\<forall>wrong salt.
            base64ToArrayBuffer P (backup_salt backup) = Inr salt \<longrightarrow>
            derivePasswordKey P wrong salt \<noteq> derivePasswordKey P password salt \<longrightarrow>
              (\<exists>e. restoreKeyFromBackup P backup wrong = Inl e)
            \<and> (\<forall>key'. derivePasswordKey P wrong salt = Inr key' \<longrightarrow>
                  restoreKeyFromBackup P backup wrong = Inl OperationError))"
proof -
  let ?salt = "map (entropy w) [entropyDrawn w ..< entropyDrawn w + 32]"
  let ?iv = "map (entropy w) [entropyDrawn w + 32 ..< entropyDrawn w + 44]"
  let ?p = "\<lparr>gcm_iv = ?iv, gcm_additionalData = None, gcm_tagLength = None\<rparr>"
  from made obtain passwordKey j encryptedKey rawPublic where
    key: "derivePasswordKey P password ?salt = Inr passwordKey"
    and exp: "exportKey_jwk P (privateKey keyPair) = Inr j"
    and enc: "encrypt P ?p passwordKey (TextEncoder_encode (JSON_stringify P j))
        = Inr encryptedKey"
    and expRaw: "exportKey_raw P (publicKey keyPair) = Inr rawPublic"
    and e1: "arrayBufferToBase64 P encryptedKey = Inr (backup_encryptedPrivateKey backup)"
    and e2: "arrayBufferToBase64 P ?salt = Inr (backup_salt backup)"
    and e3: "arrayBufferToBase64 P ?iv = Inr (backup_iv backup)"
    and e4: "arrayBufferToBase64 P rawPublic = Inr (backup_publicKey backup)"
    and fp: "backup_fingerprint backup = fingerprint keyPair"
    by (rule createKeyBackup_Inr)
  note d1 = base64ToArrayBuffer_of_encoded [OF b64 e1]
    and d2 = base64ToArrayBuffer_of_encoded [OF b64 e2]
    and d3 = base64ToArrayBuffer_of_encoded [OF b64 e3]
    and d4 = base64ToArrayBuffer_of_encoded [OF b64 e4]
  note unfolded = restoreKeyFromBackup_decoded [OF d2 d3 d1]
  have len: "length (gcm_iv ?p) = 12" by simp
  from aes key have "aesGcmKey P passwordKey" by blast
  with len enc have dec: "decrypt P ?p passwordKey encryptedKey
      = Inr (TextEncoder_encode (JSON_stringify P j))"
    unfolding aesGcmKey_def by (metis sum.inject(2))
  from jwk exp obtain j' priv where
    parse: "JSON_parse P (TextDecoder_decode (TextEncoder_encode (JSON_stringify P j))) = Inr j'"
    and imp: "importKey_jwk P j' Import_ECDH_P256 True [Usage_deriveKey, Usage_deriveBits]
        = Inr priv"
    by blast
  from raw expRaw obtain pub where
    impRaw: "importKey_raw P rawPublic Import_ECDH_P256 True [] = Inr pub"
    by blast
  have right: "\<exists>restored. restoreKeyFromBackup P backup password = Inr restored
      \<and> fingerprint restored = fingerprint keyPair"
    by (simp add: unfolded key dec parse imp d4 impRaw fp)
  have wrong: "(\<exists>e. restoreKeyFromBackup P backup wrong = Inl e)
      \<and> (\<forall>key'. derivePasswordKey P wrong salt = Inr key' \<longrightarrow>
            restoreKeyFromBackup P backup wrong = Inl OperationError)"
    if s: "base64ToArrayBuffer P (backup_salt backup) = Inr salt"
      and other: "derivePasswordKey P wrong salt \<noteq> derivePasswordKey P password salt"
    for wrong salt
  proof -
    from s d2 have salt: "salt = ?salt" by simp
    show ?thesis
    proof (cases "derivePasswordKey P wrong ?salt")
      case (Inl e)
      then show ?thesis by (simp add: unfolded salt)
    next
      case (Inr key')
      with other key salt have "key' \<noteq> passwordKey" by auto
      moreover from aes Inr have "aesGcmKey P key'" by blast
      ultimately have "decrypt P ?p key' encryptedKey = Inl OperationError"
        using binding enc unfolding keyBinding_def by blast
      with Inr show ?thesis by (simp add: unfolded salt)
    qed
  qed
  from right wrong show ?thesis by blast
qed

text \<open>
  C6, for wrong passwords that derive another key.  On a platform whose \<open>atob\<close> undoes
  \<open>btoa\<close>, whose derived keys work as AES-GCM keys, whose cipher refuses a ciphertext
  under any other key, and which can import again what it exported of the key pair:
  restoring a backup that \<open>createKeyBackup\<close> made, with the password it was made with,
  returns a key pair with the fingerprint of the original.  With a password from which the
  salt of the backup derives a different key, or none, the restore returns no key pair: it
  fails, with \<open>OperationError\<close>, the rejection of the authenticated decryption, whenever
  the key derivation itself succeeds.
\<close>

theorem backup_restore:
  assumes b64: "base64_ok P"
    and made: "createKeyBackup P keyPair password w = (Inr backup, w')"
    and aes: "\<forall>pw s key. derivePasswordKey P pw s = Inr key \<longrightarrow> aesGcmKey P key"
    and binding: "keyBinding P"
    and jwk: "\<forall>j. exportKey_jwk P (privateKey keyPair) = Inr j \<longrightarrow>
        (\<exists>j' priv. JSON_parse P (TextDecoder_decode (TextEncoder_encode (JSON_stringify P j)))
                     = Inr j'
          \<and> importKey_jwk P j' Import_ECDH_P256 True [Usage_deriveKey, Usage_deriveBits]
                     = Inr priv)"
    and raw: "\<forall>r. exportKey_raw P (publicKey keyPair) = Inr r \<longrightarrow>
        (\<exists>pub. importKey_raw P r Import_ECDH_P256 True [] = Inr pub)"
  shows "(\<exists>restored. restoreKeyFromBackup P backup password = Inr restored
            \<and> fingerprint restored = fingerprint keyPair)
       \<and> (\<forall>wrong salt.
            base64ToArrayBuffer P (backup_salt backup) = Inr salt \<longrightarrow>
            derivePasswordKey P wrong salt \<noteq> derivePasswordKey P password salt \<longrightarrow>
              (\<exists>e. restoreKeyFromBackup P backup wrong = Inl e)
            \<and> (\<forall>key'. derivePasswordKey P wrong salt = Inr key' \<longrightarrow>
                  restoreKeyFromBackup P backup wrong = Inl OperationError))"
  using assms by (rule backup_restore_both)

lemma surrogate_passwords:
  "TextEncoder_encode [0xD801] = TextEncoder_encode [0xD800]"
  by (simp add: TextEncoder_encode_def scalarOfUnit_def isLeadSurrogate_def
      isTrailSurrogate_def)

lemma restore_surrogate_password:
  "restoreKeyFromBackup P backup [0xD801] = restoreKeyFromBackup P backup [0xD800]"
  by (simp add: restoreKeyFromBackup_def derivePasswordKey_def surrogate_passwords)

lemma smallParse_numberToString: "smallParse (numberToString n) = Inr n"
proof -
  have digits: "list_all (\<lambda>c. 0x30 \<le> c \<and> c \<le> 0x39) (numberToString n)"
  proof (induction n rule: numberToString.induct)
    case (1 n)
    have digit: "0x30 \<le> (48 + of_nat k :: jschar) \<and> (48 + of_nat k :: jschar) \<le> 0x39"
      if "k < 10" for k
      using that by (simp add: word_le_nat_alt digit_unit)
    show ?case
    proof (cases "n < 10")
      case True
      then show ?thesis by (subst numberToString.simps) (simp add: digit)
    next
      case False
      then have "numberToString n = numberToString (n div 10) @ [of_nat (48 + n mod 10)]"
        by (subst numberToString.simps) simp
      with False "1.IH" show ?thesis by (simp add: digit)
    qed
  qed
  have nonempty: "numberToString n \<noteq> []"
    by (subst numberToString.simps) simp
  have "fold (\<lambda>c n. 10 * n + (unat c - 48)) (numberToString n) 0 = n"
    using numberToString_value [of n] by (simp add: foldl_conv_fold)
  with digits nonempty show ?thesis by (simp add: smallParse_def)
qed

lemma small_jwk_roundtrip:
  "JSON_parse smallPlatform
     (TextDecoder_decode (TextEncoder_encode (JSON_stringify smallPlatform j))) = Inr j"
  by (simp add: TextDecoder_TextEncoder_ascii numberToString_ascii smallParse_numberToString)


lemma small_derived_aes:
  "\<forall>pw s key. derivePasswordKey smallPlatform pw s = Inr key \<longrightarrow> aesGcmKey smallPlatform key"
  using small_aesGcmKey by (auto simp: small_derivePasswordKey)

lemma small_jwk_importable:
  "\<forall>j. exportKey_jwk smallPlatform (privateKey smallAlice) = Inr j \<longrightarrow>
     (\<exists>j' priv.
        JSON_parse smallPlatform
          (TextDecoder_decode (TextEncoder_encode (JSON_stringify smallPlatform j))) = Inr j'
      \<and> importKey_jwk smallPlatform j' Import_ECDH_P256 True
            [Usage_deriveKey, Usage_deriveBits] = Inr priv)"
  using small_jwk_roundtrip by simp

lemma small_raw_importable:
  "\<forall>r. exportKey_raw smallPlatform (publicKey smallAlice) = Inr r \<longrightarrow>
     (\<exists>pub. importKey_raw smallPlatform r Import_ECDH_P256 True [] = Inr pub)"
  by (auto simp: smallAlice_def)

theorem backup_restore_witness:
  "\<exists>backup w' salt restored.
      createKeyBackup smallPlatform smallAlice (js ''pw'') tickingWorld = (Inr backup, w')
    \<and> restoreKeyFromBackup smallPlatform backup (js ''pw'') = Inr restored
    \<and> fingerprint restored = fingerprint smallAlice
    \<and> base64ToArrayBuffer smallPlatform (backup_salt backup) = Inr salt
    \<and> derivePasswordKey smallPlatform (js ''pw2'') salt
        \<noteq> derivePasswordKey smallPlatform (js ''pw'') salt
    \<and> restoreKeyFromBackup smallPlatform backup (js ''pw2'') = Inl OperationError"
proof -
  obtain backup w' where
    made: "createKeyBackup smallPlatform smallAlice (js ''pw'') tickingWorld = (Inr backup, w')"
    using small_createKeyBackup by blast
  note both = backup_restore [OF small_base64_ok made small_derived_aes small_keyBinding
      small_jwk_importable small_raw_importable]
  from both obtain restored where
    right: "restoreKeyFromBackup smallPlatform backup (js ''pw'') = Inr restored"
      "fingerprint restored = fingerprint smallAlice"
    by blast
  from made obtain salt where
    salt: "arrayBufferToBase64 smallPlatform salt = Inr (backup_salt backup)"
    by (rule createKeyBackup_Inr)
  note decoded = base64ToArrayBuffer_of_encoded [OF small_base64_ok salt]
  have other: "derivePasswordKey smallPlatform (js ''pw2'') salt
      \<noteq> derivePasswordKey smallPlatform (js ''pw'') salt"
    by (simp add: small_derivePasswordKey TextEncoder_ascii)
  from both decoded other
  have "restoreKeyFromBackup smallPlatform backup (js ''pw2'') = Inl OperationError"
    by (simp add: small_derivePasswordKey del: js_simps)
  with made right decoded other show ?thesis by blast
qed

text \<open>
  C6, as stated, speaks of any wrong password.  \<open>TextEncoder\<close> encodes every unpaired
  surrogate as U+FFFD, so two passwords that differ only in unpaired surrogates are the
  same bytes, derive the same key, and restore the same backups: a backup made with the
  password consisting of the code unit D800 is restored with the password consisting of
  the code unit D801.
\<close>

theorem wrong_password_counterexample:
  "[0xD801] \<noteq> ([0xD800] :: jsstring)
   \<and> \<not> isl (fst (createKeyBackup smallPlatform smallAlice [0xD800] tickingWorld))
   \<and> \<not> isl (restoreKeyFromBackup smallPlatform
              (projr (fst (createKeyBackup smallPlatform smallAlice [0xD800] tickingWorld)))
              [0xD801])"
proof -
  obtain backup w' where
    made: "createKeyBackup smallPlatform smallAlice [0xD800] tickingWorld = (Inr backup, w')"
    using small_createKeyBackup by blast
  from backup_restore_both [OF small_base64_ok made small_derived_aes small_keyBinding
      small_jwk_importable small_raw_importable]
  obtain restored where "restoreKeyFromBackup smallPlatform backup [0xD800] = Inr restored"
    by blast
  then have "restoreKeyFromBackup smallPlatform backup [0xD801] = Inr restored"
    by (simp only: restore_surrogate_password)
  with made show ?thesis by simp
qed

section \<open>Tampering: proofs\<close>

lemma flip_mask_nonzero: "push_bit (n mod 8) (1 :: byte) \<noteq> 0"
  by simp

lemma xor_mask_changes: "m \<noteq> 0 \<Longrightarrow> (x :: byte) XOR m \<noteq> x"
  by (metis bit.xor_left_self word_bw_same(3))

lemma length_flipBit [simp]: "length (flipBit n xs) = length xs"
  by (simp add: flipBit_def)

lemma flipBit_append1:
  assumes "n < 8 * length a"
  shows "flipBit n (a @ b) = flipBit n a @ b"
proof -
  from assms have "n div 8 < length a" by simp
  then show ?thesis by (simp add: flipBit_def list_update_append nth_append)
qed

lemma bit_index_shift:
  fixes l n :: nat
  assumes "8 * l \<le> n"
  shows "(n - 8 * l) div 8 = n div 8 - l" and "(n - 8 * l) mod 8 = n mod 8"
proof -
  from assms obtain r where n: "n = 8 * l + r" by (auto simp: le_iff_add)
  show "(n - 8 * l) div 8 = n div 8 - l" unfolding n by simp
  show "(n - 8 * l) mod 8 = n mod 8" unfolding n by simp
qed

lemma flipBit_append2:
  assumes "8 * length a \<le> n"
  shows "flipBit n (a @ b) = a @ flipBit (n - 8 * length a) b"
proof -
  from assms have 1: "length a \<le> n div 8" by simp
  note 2 = bit_index_shift(1) [OF assms] and 3 = bit_index_shift(2) [OF assms]
  from 1 show ?thesis
    by (simp add: flipBit_def list_update_append nth_append 2 3)
qed

lemma flipBit_update:
  assumes "n < 8 * length xs"
  obtains x where "flipBit n xs = xs[n div 8 := x]" and "x \<noteq> xs ! (n div 8)"
    and "n div 8 < length xs"
proof -
  from assms have 1: "n div 8 < length xs" by simp
  have 2: "xs ! (n div 8) XOR push_bit (n mod 8) 1 \<noteq> xs ! (n div 8)"
    using flip_mask_nonzero by (rule xor_mask_changes)
  have 3: "flipBit n xs = xs[n div 8 := xs ! (n div 8) XOR push_bit (n mod 8) 1]"
    by (simp add: flipBit_def)
  from 3 2 1 show ?thesis by (rule that)
qed

lemma flipBit_changes:
  assumes "n < 8 * length xs"
  shows "flipBit n xs \<noteq> xs"
proof -
  from assms obtain x where "flipBit n xs = xs[n div 8 := x]" "x \<noteq> xs ! (n div 8)"
    "n div 8 < length xs"
    by (rule flipBit_update)
  then have "flipBit n xs ! (n div 8) \<noteq> xs ! (n div 8)" by simp
  then show ?thesis by auto
qed

text \<open>
  C5, for associated data that differ as octet strings.  With a key of a cipher that binds
  the associated data and detects inverted bits, on a platform whose \<open>atob\<close> undoes
  \<open>btoa\<close>: a message made by \<open>encryptMessage\<close> is refused by \<open>decryptMessage\<close> under
  every associated data whose octets differ from those of the encryption (absent data
  being the empty octet string), and so is every message whose transport string decodes
  to the octets of the original (nonce, ciphertext and tag) with one bit inverted, under
  the right key and associated data.  The refusal is the same value in both cases,
  \<open>OperationError\<close>.
\<close>

theorem decryptMessage_rejects_tampering:
  assumes b64: "base64_ok P"
    and bind: "bindsAssociatedData P k"
    and flips: "detectsBitFlips P k"
    and enc: "encryptMessage P k m aad w = (Inr msg, w')"
  shows "(\<forall>aad'. aadBytes aad' \<noteq> aadBytes aad \<longrightarrow>
            decryptMessage P k msg aad' = Inl OperationError)
       \<and> (\<forall>combined n tampered.
            base64ToArrayBuffer P (ciphertext msg) = Inr combined \<longrightarrow>
            n < 8 * length combined \<longrightarrow>
            base64ToArrayBuffer P tampered = Inr (flipBit n combined) \<longrightarrow>
            decryptMessage P k (msg\<lparr>ciphertext := tampered\<rparr>) aad = Inl OperationError)"
proof -
  let ?iv = "map (entropy w) [entropyDrawn w ..< entropyDrawn w + 12]"
  let ?p = "\<lparr>gcm_iv = ?iv, gcm_additionalData = aad, gcm_tagLength = Some 128\<rparr>"
  from enc obtain ct where ct: "encrypt P ?p k (TextEncoder_encode m) = Inr ct"
    and enc64: "arrayBufferToBase64 P (?iv @ ct) = Inr (ciphertext msg)"
    by (rule encryptMessage_Inr)
  note decoded = base64ToArrayBuffer_of_encoded [OF b64 enc64]
  have len: "length ?iv = 12" by simp
  have other_aad: "decryptMessage P k msg aad' = Inl OperationError"
    if "aadBytes aad' \<noteq> aadBytes aad" for aad'
  proof -
    from that have "aadBytes aad' \<noteq> aadBytes (gcm_additionalData ?p)" by simp
    with bind ct have "decrypt P (?p\<lparr>gcm_additionalData := aad'\<rparr>) k ct = Inl OperationError"
      unfolding bindsAssociatedData_def by blast
    then show ?thesis
      by (simp add: decryptMessage_decoded [OF decoded len])
  qed
  have flipped: "decryptMessage P k (msg\<lparr>ciphertext := tampered\<rparr>) aad = Inl OperationError"
    if c: "base64ToArrayBuffer P (ciphertext msg) = Inr combined"
      and n: "n < 8 * length combined"
      and t: "base64ToArrayBuffer P tampered = Inr (flipBit n combined)"
    for combined n tampered
  proof -
    from c decoded have combined: "combined = ?iv @ ct" by simp
    show ?thesis
    proof (cases "n < 8 * length ?iv")
      case True
      then have "flipBit n combined = flipBit n ?iv @ ct"
        unfolding combined by (rule flipBit_append1)
      with t have "base64ToArrayBuffer P (ciphertext (msg\<lparr>ciphertext := tampered\<rparr>))
          = Inr (flipBit n ?iv @ ct)"
        by simp
      then have "decryptMessage P k (msg\<lparr>ciphertext := tampered\<rparr>) aad =
          await (decrypt P \<lparr>gcm_iv = flipBit n ?iv, gcm_additionalData = aad,
                   gcm_tagLength = Some 128\<rparr> k ct)
            (\<lambda>pt. Inr \<lparr>plaintext = TextDecoder_decode pt,
                        decrypted_timestamp = timestamp (msg\<lparr>ciphertext := tampered\<rparr>)\<rparr>)"
        by (rule decryptMessage_decoded) simp
      moreover from True have "n < 8 * length (gcm_iv ?p)" by simp
      with flips ct
      have "decrypt P (?p\<lparr>gcm_iv := flipBit n (gcm_iv ?p)\<rparr>) k ct = Inl OperationError"
        unfolding detectsBitFlips_def by blast
      ultimately show ?thesis by simp
    next
      case False
      then have "flipBit n combined = ?iv @ flipBit (n - 8 * length ?iv) ct"
        unfolding combined by (intro flipBit_append2) simp
      with t have "base64ToArrayBuffer P (ciphertext (msg\<lparr>ciphertext := tampered\<rparr>))
          = Inr (?iv @ flipBit (n - 8 * length ?iv) ct)"
        by simp
      then have "decryptMessage P k (msg\<lparr>ciphertext := tampered\<rparr>) aad =
          await (decrypt P ?p k (flipBit (n - 8 * length ?iv) ct))
            (\<lambda>pt. Inr \<lparr>plaintext = TextDecoder_decode pt,
                        decrypted_timestamp = timestamp (msg\<lparr>ciphertext := tampered\<rparr>)\<rparr>)"
        by (rule decryptMessage_decoded) simp
      moreover from False n have "n - 8 * length ?iv < 8 * length ct"
        unfolding combined by simp
      with flips ct
      have "decrypt P ?p k (flipBit (n - 8 * length ?iv) ct) = Inl OperationError"
        unfolding detectsBitFlips_def by blast
      ultimately show ?thesis by simp
    qed
  qed
  from other_aad flipped show ?thesis by blast
qed

section \<open>The small platform detects inverted bits: proofs\<close>

lemma twice_update:
  "j < length (twice d) \<Longrightarrow> (twice d)[j := x] = twice d' \<Longrightarrow> x = twice d ! j"
proof (induction d arbitrary: d' j)
  case Nil
  then show ?case by simp
next
  case (Cons b d)
  from Cons.prems(2) have "length (twice d') = length (twice (b # d))"
    by (metis length_list_update)
  then obtain b' d'' where d': "d' = b' # d''"
    by (cases d') auto
  show ?case
  proof (cases j)
    case 0
    with Cons.prems(2) d' show ?thesis by simp
  next
    case (Suc i)
    show ?thesis
    proof (cases i)
      case 0
      with Suc Cons.prems(2) d' show ?thesis by simp
    next
      case (Suc l)
      with \<open>j = Suc i\<close> Cons.prems d' have "l < length (twice d)" "(twice d)[l := x] = twice d''"
        by simp_all
      then have "x = twice d ! l" by (rule Cons.IH)
      with Suc \<open>j = Suc i\<close> show ?thesis by simp
    qed
  qed
qed

lemma small_body_tamper:
  assumes "i < length (h @ twice d)" and "x \<noteq> (h @ twice d) ! i"
  shows "(h @ twice d)[i := x] \<noteq> h @ twice d'"
proof
  assume eq: "(h @ twice d)[i := x] = h @ twice d'"
  show False
  proof (cases "i < length h")
    case True
    with eq have "h[i := x] = h" by (simp add: list_update_append)
    with True have "x = h ! i" by (metis nth_list_update_eq)
    with True assms(2) show False by (simp add: nth_append)
  next
    case False
    with eq have "(twice d)[i - length h := x] = twice d'"
      by (simp add: list_update_append)
    moreover from False assms(1) have "i - length h < length (twice d)" by simp
    ultimately have "x = twice d ! (i - length h)" by (rule twice_update [rotated])
    with False assms(2) show False by (simp add: nth_append)
  qed
qed

lemma small_detectsBitFlips: "detectsBitFlips smallPlatform (SecretKey k)"
  unfolding detectsBitFlips_def
proof (intro allI impI conjI)
  fix p d c n
  assume enc: "encrypt smallPlatform p (SecretKey k) d = Inr c"
    and n: "n < 8 * length (gcm_iv p)"
  from enc have c: "c = smallHeader k p @ twice d" by simp
  from n have "flipBit n (gcm_iv p) \<noteq> gcm_iv p" by (rule flipBit_changes)
  then have "c \<noteq> smallHeader k (p\<lparr>gcm_iv := flipBit n (gcm_iv p)\<rparr>) @ twice d'" for d'
    using smallHeader_unique(2) [of k "p\<lparr>gcm_iv := flipBit n (gcm_iv p)\<rparr>" "twice d'" k p
        "twice d"] c
    by auto
  then show "decrypt smallPlatform (p\<lparr>gcm_iv := flipBit n (gcm_iv p)\<rparr>) (SecretKey k) c
      = Inl OperationError"
    by (simp add: smallDecrypt_refused)
next
  fix p d c n
  assume enc: "encrypt smallPlatform p (SecretKey k) d = Inr c"
    and n: "n < 8 * length c"
  from enc have c: "c = smallHeader k p @ twice d" by simp
  from n obtain x where "flipBit n c = c[n div 8 := x]" "x \<noteq> c ! (n div 8)"
    "n div 8 < length c"
    by (rule flipBit_update)
  then have "flipBit n c \<noteq> smallHeader k p @ twice d'" for d'
    unfolding c using small_body_tamper by simp
  then show "decrypt smallPlatform p (SecretKey k) (flipBit n c) = Inl OperationError"
    by (simp add: smallDecrypt_refused)
qed

theorem decryptMessage_rejects_tampering_witness:
  "\<exists>msg w' combined.
      encryptMessage smallPlatform (SecretKey [1, 2]) (js ''hi'') (Some [9]) tickingWorld
        = (Inr msg, w')
    \<and> aadBytes None \<noteq> aadBytes (Some [9])
    \<and> decryptMessage smallPlatform (SecretKey [1, 2]) msg None = Inl OperationError
    \<and> base64ToArrayBuffer smallPlatform (ciphertext msg) = Inr combined
    \<and> 0 < 8 * length combined
    \<and> base64ToArrayBuffer smallPlatform (map ucast (flipBit 0 combined))
        = Inr (flipBit 0 combined)
    \<and> decryptMessage smallPlatform (SecretKey [1, 2])
          (msg\<lparr>ciphertext := map ucast (flipBit 0 combined)\<rparr>) (Some [9])
        = Inl OperationError"
proof -
  obtain msg w' where enc:
    "encryptMessage smallPlatform (SecretKey [1, 2]) (js ''hi'') (Some [9]) tickingWorld
       = (Inr msg, w')"
    using encryptMessage_succeeds [OF small_base64_ok small_aesGcmKey] by blast
  from enc obtain ct where
    "arrayBufferToBase64 smallPlatform
       (map (entropy tickingWorld)
          [entropyDrawn tickingWorld ..< entropyDrawn tickingWorld + 12] @ ct)
     = Inr (ciphertext msg)"
    by (rule encryptMessage_Inr)
  from base64ToArrayBuffer_of_encoded [OF small_base64_ok this]
  obtain combined where
    combined: "base64ToArrayBuffer smallPlatform (ciphertext msg) = Inr combined"
    and nonempty: "0 < 8 * length combined"
    by simp
  have aad: "aadBytes None \<noteq> aadBytes (Some [9])" by (simp add: aadBytes_def)
  have tampered: "base64ToArrayBuffer smallPlatform (map ucast (flipBit 0 combined))
      = Inr (flipBit 0 combined)"
    by simp
  note rejects = decryptMessage_rejects_tampering [OF small_base64_ok small_bindsAssociatedData
      small_detectsBitFlips enc]
  from rejects aad
  have 1: "decryptMessage smallPlatform (SecretKey [1, 2]) msg None = Inl OperationError"
    by blast
  from rejects combined nonempty tampered
  have 2: "decryptMessage smallPlatform (SecretKey [1, 2])
      (msg\<lparr>ciphertext := map ucast (flipBit 0 combined)\<rparr>) (Some [9]) = Inl OperationError"
    by blast
  from enc aad 1 combined nonempty tampered 2 show ?thesis by blast
qed

lemma small_decrypt_aadBytes:
  assumes "aadBytes a = aadBytes b"
  shows "smallDecrypt \<lparr>gcm_iv = iv, gcm_additionalData = a, gcm_tagLength = t\<rparr> key c
       = smallDecrypt \<lparr>gcm_iv = iv, gcm_additionalData = b, gcm_tagLength = t\<rparr> key c"
  using assms by (cases key) (simp_all add: smallDecrypt.simps smallHeader_def)

lemma small_decryptMessage_aadBytes:
  assumes "aadBytes a = aadBytes b"
  shows "decryptMessage smallPlatform key msg a = decryptMessage smallPlatform key msg b"
  using small_decrypt_aadBytes [OF assms]
  by (simp add: decryptMessage_def Let_def)

text \<open>
  C5, as stated, speaks of any associated data different from those of the encryption.
  An empty array is different from absent associated data, and \<open>decryptMessage\<close> passes
  it on to the cipher, since \<open>if (additionalData)\<close> holds for every array; but AES-GCM
  authenticates the empty octet string when the associated data are absent, so a message
  encrypted without associated data is decrypted with the empty array.
\<close>

theorem empty_associated_data_counterexample:
  "Some [] \<noteq> (None :: bytes option)
   \<and> \<not> isl (fst (encryptMessage smallPlatform (SecretKey [1, 2]) (js ''hi'') None tickingWorld))
   \<and> \<not> isl (decryptMessage smallPlatform (SecretKey [1, 2])
              (projr (fst (encryptMessage smallPlatform (SecretKey [1, 2]) (js ''hi'') None
                             tickingWorld)))
              (Some []))"
proof -
  obtain msg w' where enc:
    "encryptMessage smallPlatform (SecretKey [1, 2]) (js ''hi'') None tickingWorld
       = (Inr msg, w')"
    using encryptMessage_succeeds [OF small_base64_ok small_aesGcmKey] by blast
  have "decryptMessage smallPlatform (SecretKey [1, 2]) msg (Some [])
      = decryptMessage smallPlatform (SecretKey [1, 2]) msg None"
    by (rule small_decryptMessage_aadBytes) (simp add: aadBytes_def)
  with decryptMessage_encryptMessage [OF small_base64_ok small_aesGcmKey enc]
  have "\<not> isl (decryptMessage smallPlatform (SecretKey [1, 2]) msg (Some []))"
    by simp
  with enc show ?thesis by simp
qed

section \<open>The text codec on well-formed strings: proofs\<close>

lemma byte_of_nat: "v < 256 \<Longrightarrow> unat (of_nat v :: byte) = v"
  by (rule of_nat_inverse [OF refl]) simp

lemma mod_offset: "a < m \<Longrightarrow> (m * k + a) mod m = (a::nat)"
  by simp

lemma utf8_one:
  assumes "cp < 0x80"
  shows "utf8Decode 0 0 0 0x80 0xBF (utf8EncodeScalar cp @ bs)
       = cp # utf8Decode 0 0 0 0x80 0xBF bs"
  using assms by (simp add: utf8EncodeScalar_def byte_of_nat Let_def)

lemma utf8_two:
  assumes "0x80 \<le> cp" and "cp < 0x800"
  shows "utf8Decode 0 0 0 0x80 0xBF (utf8EncodeScalar cp @ bs)
       = cp # utf8Decode 0 0 0 0x80 0xBF bs"
proof -
  define a b where "a = cp div 64" and "b = cp mod 64"
  have cp: "cp = 64 * a + b" and b: "b < 64" by (simp_all add: a_def b_def)
  from assms cp b have a: "2 \<le> a" "a < 32" by simp_all
  have enc: "utf8EncodeScalar cp = [of_nat (0xC0 + a), of_nat (0x80 + b)]"
    using assms by (simp add: utf8EncodeScalar_def a_def b_def)
  have u0: "unat (of_nat (0xC0 + a) :: byte) = 0xC0 + a"
    using a by (intro byte_of_nat) simp
  have u1: "unat (of_nat (0x80 + b) :: byte) = 0x80 + b"
    using b by (intro byte_of_nat) simp
  have m0: "(0xC0 + a) mod 0x20 = a" using mod_offset [of a 32 6] a by simp
  have m1: "(0x80 + b) mod 0x40 = b" using mod_offset [of b 64 2] b by simp
  show ?thesis
    unfolding enc
    using a b
    by (simp add: u0 u1 m0 m1 Let_def cp del: of_nat_add of_nat_numeral)
qed

lemma utf8_three:
  assumes "0x800 \<le> cp" and "cp < 0x10000" and "\<not> (0xD800 \<le> cp \<and> cp \<le> 0xDFFF)"
  shows "utf8Decode 0 0 0 0x80 0xBF (utf8EncodeScalar cp @ bs)
       = cp # utf8Decode 0 0 0 0x80 0xBF bs"
proof -
  define a b c where "a = cp div 4096" and "b = cp div 64 mod 64" and "c = cp mod 64"
  have b: "b < 64" and c: "c < 64" by (simp_all add: b_def c_def)
  have "cp div 64 = 64 * (cp div 64 div 64) + cp div 64 mod 64" by simp
  moreover have "cp div 64 div 64 = cp div 4096" by (simp add: div_mult2_eq [symmetric])
  ultimately have "cp div 64 = 64 * a + b" by (simp add: a_def b_def)
  moreover have "cp = 64 * (cp div 64) + c" by (simp add: c_def)
  ultimately have cp: "cp = 4096 * a + 64 * b + c" by simp
  from assms cp b c have a: "a < 16" by simp
  from assms(1) cp b c have low: "a = 0 \<Longrightarrow> 32 \<le> b" by simp
  from assms(3) cp b c have high: "a = 13 \<Longrightarrow> b < 32" by simp
  have enc: "utf8EncodeScalar cp =
      [of_nat (0xE0 + a), of_nat (0x80 + b), of_nat (0x80 + c)]"
    using assms by (simp add: utf8EncodeScalar_def a_def b_def c_def)
  have u0: "unat (of_nat (0xE0 + a) :: byte) = 0xE0 + a"
    using a by (intro byte_of_nat) simp
  have u1: "unat (of_nat (0x80 + b) :: byte) = 0x80 + b"
    using b by (intro byte_of_nat) simp
  have u2: "unat (of_nat (0x80 + c) :: byte) = 0x80 + c"
    using c by (intro byte_of_nat) simp
  have m0: "(0xE0 + a) mod 0x10 = a" using mod_offset [of a 16 14] a by simp
  have m1: "(0x80 + b) mod 0x40 = b" using mod_offset [of b 64 2] b by simp
  have m2: "(0x80 + c) mod 0x40 = c" using mod_offset [of c 64 2] c by simp
  show ?thesis
    unfolding enc
    using a b c low high
    by (auto simp: u0 u1 u2 m0 m1 m2 Let_def cp simp del: of_nat_add of_nat_numeral)
qed

lemma utf8_four:
  assumes "0x10000 \<le> cp" and "cp < 0x110000"
  shows "utf8Decode 0 0 0 0x80 0xBF (utf8EncodeScalar cp @ bs)
       = cp # utf8Decode 0 0 0 0x80 0xBF bs"
proof -
  define a b c d where "a = cp div 262144" and "b = cp div 4096 mod 64"
    and "c = cp div 64 mod 64" and "d = cp mod 64"
  have b: "b < 64" and c: "c < 64" and d: "d < 64" by (simp_all add: b_def c_def d_def)
  have "cp div 4096 = 64 * (cp div 4096 div 64) + cp div 4096 mod 64" by simp
  moreover have "cp div 4096 div 64 = cp div 262144" by (simp add: div_mult2_eq [symmetric])
  ultimately have 1: "cp div 4096 = 64 * a + b" by (simp add: a_def b_def)
  have "cp div 64 = 64 * (cp div 64 div 64) + cp div 64 mod 64" by simp
  moreover have "cp div 64 div 64 = cp div 4096" by (simp add: div_mult2_eq [symmetric])
  ultimately have 2: "cp div 64 = 64 * (64 * a + b) + c" by (simp add: 1 c_def)
  have "cp = 64 * (cp div 64) + d" by (simp add: d_def)
  with 2 have cp: "cp = 262144 * a + 4096 * b + 64 * c + d" by simp
  from assms cp b c d have a: "a < 5" by simp
  from assms(1) cp b c d have low: "a = 0 \<Longrightarrow> 16 \<le> b" by simp
  from assms(2) cp b c d have high: "a = 4 \<Longrightarrow> b < 16" by simp
  have enc: "utf8EncodeScalar cp =
      [of_nat (0xF0 + a), of_nat (0x80 + b), of_nat (0x80 + c), of_nat (0x80 + d)]"
    using assms by (simp add: utf8EncodeScalar_def a_def b_def c_def d_def)
  have u0: "unat (of_nat (0xF0 + a) :: byte) = 0xF0 + a"
    using a by (intro byte_of_nat) simp
  have u1: "unat (of_nat (0x80 + b) :: byte) = 0x80 + b"
    using b by (intro byte_of_nat) simp
  have u2: "unat (of_nat (0x80 + c) :: byte) = 0x80 + c"
    using c by (intro byte_of_nat) simp
  have u3: "unat (of_nat (0x80 + d) :: byte) = 0x80 + d"
    using d by (intro byte_of_nat) simp
  have m0: "(0xF0 + a) mod 0x08 = a" using mod_offset [of a 8 30] a by simp
  have m1: "(0x80 + b) mod 0x40 = b" using mod_offset [of b 64 2] b by simp
  have m2: "(0x80 + c) mod 0x40 = c" using mod_offset [of c 64 2] c by simp
  have m3: "(0x80 + d) mod 0x40 = d" using mod_offset [of d 64 2] d by simp
  show ?thesis
    unfolding enc
    using a b c d low high
    by (auto simp: u0 u1 u2 u3 m0 m1 m2 m3 Let_def cp simp del: of_nat_add of_nat_numeral)
qed

lemma utf8Decode_encoded:
  assumes "isScalar cp"
  shows "utf8Decode 0 0 0 0x80 0xBF (utf8EncodeScalar cp @ bs)
       = cp # utf8Decode 0 0 0 0x80 0xBF bs"
proof -
  consider "cp < 0x80" | "0x80 \<le> cp" "cp < 0x800" | "0x800 \<le> cp" "cp < 0x10000"
    | "0x10000 \<le> cp"
    by linarith
  then show ?thesis
  proof cases
    case 1
    then show ?thesis by (rule utf8_one)
  next
    case 2
    then show ?thesis by (rule utf8_two)
  next
    case 3
    with assms show ?thesis by (intro utf8_three) (simp_all add: isScalar_def)
  next
    case 4
    with assms show ?thesis by (intro utf8_four) (simp_all add: isScalar_def)
  qed
qed

lemma utf8Decode_concat:
  "list_all isScalar cps \<Longrightarrow>
     utf8Decode 0 0 0 0x80 0xBF (concat (map utf8EncodeScalar cps)) = cps"
  by (induction cps) (simp_all add: utf8Decode_encoded)

lemma lead_bounds:
  assumes "isLeadSurrogate c"
  shows "0xD800 \<le> unat c" and "unat c \<le> 0xDBFF"
  using assms by (simp_all add: isLeadSurrogate_def word_le_nat_alt)

lemma trail_bounds:
  assumes "isTrailSurrogate d"
  shows "0xDC00 \<le> unat d" and "unat d \<le> 0xDFFF"
  using assms by (simp_all add: isTrailSurrogate_def word_le_nat_alt)

lemma unit_scalar:
  assumes "\<not> isLeadSurrogate c" and "\<not> isTrailSurrogate c"
  shows "isScalar (scalarOfUnit c)" and "unitsOfScalar (scalarOfUnit c) = [c]"
proof -
  have less: "unat c < 0x10000" using unsigned_less [of c, where 'a = nat] by simp
  from assms have "\<not> (0xD800 \<le> unat c \<and> unat c \<le> 0xDFFF)"
    by (auto simp: isLeadSurrogate_def isTrailSurrogate_def word_le_nat_alt)
  with less assms show "isScalar (scalarOfUnit c)"
    by (simp add: isScalar_def scalarOfUnit_def)
  from less assms show "unitsOfScalar (scalarOfUnit c) = [c]"
    by (simp add: unitsOfScalar_def scalarOfUnit_def)
qed

lemma pair_scalar:
  assumes "isLeadSurrogate c" and "isTrailSurrogate d"
  shows "isScalar (0x10000 + (unat c - 0xD800) * 0x400 + (unat d - 0xDC00))"
    and "unitsOfScalar (0x10000 + (unat c - 0xD800) * 0x400 + (unat d - 0xDC00)) = [c, d]"
    and "0x10000 + (unat c - 0xD800) * 0x400 + (unat d - 0xDC00) \<noteq> 0xFEFF"
proof -
  define h l where "h = unat c - 0xD800" and "l = unat d - 0xDC00"
  from lead_bounds [OF assms(1)] have h: "h < 0x400" and c: "unat c = 0xD800 + h"
    by (simp_all add: h_def)
  from trail_bounds [OF assms(2)] have l: "l < 0x400" and d: "unat d = 0xDC00 + l"
    by (simp_all add: l_def)
  have cp: "0x10000 + (unat c - 0xD800) * 0x400 + (unat d - 0xDC00) = 0x10000 + h * 0x400 + l"
    by (simp add: h_def l_def)
  from h l show "isScalar (0x10000 + (unat c - 0xD800) * 0x400 + (unat d - 0xDC00))"
    unfolding cp by (simp add: isScalar_def)
  have "of_nat (unat c) = c" "of_nat (unat d) = d" by simp_all
  then have units: "(of_nat (0xD800 + h) :: jschar) = c" "(of_nat (0xDC00 + l) :: jschar) = d"
    by (simp_all only: c d)
  from l have "(h * 0x400 + l) div 0x400 = h" "(h * 0x400 + l) mod 0x400 = l" by simp_all
  with units
  show "unitsOfScalar (0x10000 + (unat c - 0xD800) * 0x400 + (unat d - 0xDC00)) = [c, d]"
    unfolding cp by (simp add: unitsOfScalar_def del: of_nat_add of_nat_numeral)
  show "0x10000 + (unat c - 0xD800) * 0x400 + (unat d - 0xDC00) \<noteq> 0xFEFF"
    unfolding cp by simp
qed

lemma wellFormed_scalars: "wellFormed s \<Longrightarrow> list_all isScalar (toScalarValues s)"
  by (induction s rule: toScalarValues.induct)
    (auto simp: unit_scalar pair_scalar split: if_splits)

lemma wellFormed_units:
  "wellFormed s \<Longrightarrow> concat (map unitsOfScalar (toScalarValues s)) = s"
  by (induction s rule: toScalarValues.induct)
    (auto simp: unit_scalar pair_scalar split: if_splits)

lemma wellFormed_no_BOM:
  assumes "wellFormed s" and "s = [] \<or> hd s \<noteq> 0xFEFF"
  shows "stripBOM (toScalarValues s) = toScalarValues s"
proof (cases s rule: toScalarValues.cases)
  case 1
  then show ?thesis by (simp add: stripBOM_def)
next
  case (2 c)
  with assms have "unat c \<noteq> unat (0xFEFF :: jschar)" by (simp add: word_unat_eq_iff)
  with 2 assms show ?thesis by (simp add: stripBOM_def scalarOfUnit_def)
next
  case (3 c d rest)
  with assms have "unat c \<noteq> unat (0xFEFF :: jschar)" by (simp add: word_unat_eq_iff)
  with 3 assms show ?thesis
    by (auto simp: stripBOM_def scalarOfUnit_def pair_scalar(3) split: if_splits)
qed

lemma TextDecoder_TextEncoder:
  assumes "wellFormed s" and "s = [] \<or> hd s \<noteq> 0xFEFF"
  shows "TextDecoder_decode (TextEncoder_encode s) = s"
  using assms
  by (simp add: TextDecoder_decode_def TextEncoder_encode_def utf8Decode_concat
      wellFormed_scalars wellFormed_no_BOM wellFormed_units)

text \<open>
  The round trip of the message cipher returns every well-formed plaintext that does not
  begin with U+FEFF, the empty one and those with code points of four bytes among them,
  and the timestamp of the message.
\<close>

lemma decryptMessage_returns_plaintext:
  assumes "base64_ok P" and "aesGcmKey P k"
    and "wellFormed m" and "m = [] \<or> hd m \<noteq> 0xFEFF"
    and "encryptMessage P k m aad w = (Inr msg, w')"
  shows "decryptMessage P k msg aad = Inr \<lparr>plaintext = m, decrypted_timestamp = timestamp msg\<rparr>"
  using decryptMessage_encryptMessage [OF assms(1,2,5)] TextDecoder_TextEncoder [OF assms(3,4)]
  by simp

lemma TextDecoder_TextEncoder_examples:
  "TextDecoder_decode (TextEncoder_encode []) = []"
  "TextEncoder_encode [0xD83D, 0xDD10] = [0xF0, 0x9F, 0x94, 0x90]"
  "TextDecoder_decode (TextEncoder_encode [0xD83D, 0xDD10]) = [0xD83D, 0xDD10]"
proof -
  show "TextDecoder_decode (TextEncoder_encode []) = []"
    by (rule TextDecoder_TextEncoder) simp_all
  show "TextEncoder_encode [0xD83D, 0xDD10] = [0xF0, 0x9F, 0x94, 0x90]"
    by (simp add: TextEncoder_encode_def isLeadSurrogate_def isTrailSurrogate_def
        utf8EncodeScalar_def)
  show "TextDecoder_decode (TextEncoder_encode [0xD83D, 0xDD10]) = [0xD83D, 0xDD10]"
    by (rule TextDecoder_TextEncoder)
      (simp_all add: isLeadSurrogate_def isTrailSurrogate_def)
qed

text \<open>
  With a clock that stands still, the message of the self-test of the source goes from
  one session to the other.
\<close>

lemma session_roundtrip_example:
  "\<exists>aliceSession bobSession wa wb payload w'.
      establishSecureSession smallPlatform smallAlice [4, 32, 0, 0, 0, 0, 0, 0]
        (fingerprint smallBob) frozenWorld = (Inr aliceSession, wa)
    \<and> establishSecureSession smallPlatform smallBob [4, 8, 0, 0, 0, 0, 0, 0]
        (fingerprint smallAlice) frozenWorld = (Inr bobSession, wb)
    \<and> encryptSessionMessage smallPlatform aliceSession (js ''alice'') (js ''bob'')
        (js ''Secret session message!'') wa = (Inr payload, w')
    \<and> decryptSessionMessage smallPlatform bobSession payload
        = Inr \<lparr>plaintext = js ''Secret session message!'',
               decrypted_timestamp = 1700000000000\<rparr>"
proof -
  let ?wa = "frozenWorld\<lparr>clockReads := clockReads frozenWorld + 2\<rparr>"
  obtain aliceSession where
    alice: "establishSecureSession smallPlatform smallAlice [4, 32, 0, 0, 0, 0, 0, 0]
        (fingerprint smallBob) frozenWorld = (Inr aliceSession, ?wa)"
    and sendA: "sendKey aliceSession
       = SecretKey ([138] @ replicate 32 0 @ TextEncoder_encode (js ''chit-chat-session-key-2''))"
    using small_alice_session [of frozenWorld] by blast
  obtain bobSession where
    bob: "establishSecureSession smallPlatform smallBob [4, 8, 0, 0, 0, 0, 0, 0]
        (fingerprint smallAlice) frozenWorld = (Inr bobSession, ?wa)"
    and recvB: "receiveKey bobSession
       = SecretKey ([138] @ replicate 32 0 @ TextEncoder_encode (js ''chit-chat-session-key-2''))"
    using small_bob_session [of frozenWorld] by blast
  from sendA recvB have keys: "receiveKey bobSession = sendKey aliceSession" by simp
  have aes: "aesGcmKey smallPlatform (sendKey aliceSession)"
    unfolding sendA by (rule small_aesGcmKey)
  obtain payload w' where enc:
    "encryptSessionMessage smallPlatform aliceSession (js ''alice'') (js ''bob'')
        (js ''Secret session message!'') ?wa = (Inr payload, w')"
    using encryptSessionMessage_succeeds [OF small_base64_ok aes] by blast
  have still: "clock ?wa (clockReads ?wa + 1) = clock ?wa (clockReads ?wa)"
    by (simp add: frozenWorld_def)
  have codec: "TextDecoder_decode (TextEncoder_encode (js ''Secret session message!''))
      = js ''Secret session message!''"
    by (rule TextDecoder_TextEncoder_ascii) simp
  have reading: "clock ?wa (clockReads ?wa) = 1700000000000"
    by (simp add: frozenWorld_def)
  from session_message_roundtrip [OF small_base64_ok aes keys enc still]
  have "decryptSessionMessage smallPlatform bobSession payload
      = Inr \<lparr>plaintext = js ''Secret session message!'',
             decrypted_timestamp = 1700000000000\<rparr>"
    by (simp only: codec reading)
  with alice bob enc show ?thesis by blast
qed

end
